theory Spec2Isabelle
  imports Main "HOL-Library.Char_ord" "HOL-Library.List_Lexorder" "HOL-Library.Sublist"
    "HOL-Library.Multiset"
begin

section \<open>Data model\<close>

text \<open>
  The program (\<^verbatim>\<open>src/main.py\<close>) checks translation files against the reference file
  \<^verbatim>\<open>en_us.json\<close>.

  \<^item> A Python \<^verbatim>\<open>str\<close> is modelled as a \<^typ>\<open>string\<close> holding its UTF-8 bytes. The
    source compares strings with \<^verbatim>\<open>==\<close>, tests \<^verbatim>\<open>a in b\<close> and sorts file names; on
    UTF-8 these agree with the same operations on code points. The three non-ASCII
    characters of the source are written as their bytes (U+26A0, U+2705, U+00A7).
  \<^item> A Python \<^verbatim>\<open>dict\<close> keeps insertion order, and the order check depends on it: a
    dict is an association list whose keys are distinct (\<open>py_dict\<close>).
  \<^item> A Python \<^verbatim>\<open>set\<close> is the list of its elements without duplicates. The order in which
    CPython iterates a set of strings follows the strings' hashes, which are salted per
    process, and the way the set was built. The model takes that order as a parameter:
    \<open>set_iter\<close> for a set built by \<^verbatim>\<open>add\<close> from the empty set, a function of the elements
    in the order they were added; \<open>diff_iter\<close> for a difference \<^verbatim>\<open>set(a) - set(b)\<close>, a
    function of the two lists \<open>a\<close> and \<open>b\<close> the sets were built from.
  \<^item> Every function returns the lines it passed to \<^verbatim>\<open>gh_summary\<close> together with its
    outcome: \<open>Inr\<close> for a normal return, \<open>Inl\<close> for the exception that left it.
\<close>

type_synonym table = "(string \<times> string) list"
type_synonym lang_tables = "(string \<times> table) list"
type_synonym exemptions = "(string \<times> string list) list"

datatype error =
    Exception string
  | KeyError string
  | ZeroDivisionError
  | FileNotFoundError
  | JSONDecodeError

type_synonym 'a run = "string list \<times> (error + 'a)"

definition py_dict :: "('k \<times> 'v) list \<Rightarrow> bool" where
  "py_dict d = distinct (map fst d)"

definition keys :: "('k \<times> 'v) list \<Rightarrow> 'k list" where
  "keys d = map fst d"

text \<open>\<^verbatim>\<open>d[k]\<close>: raises \<^verbatim>\<open>KeyError\<close> when the key is missing.\<close>

definition dict_get :: "table \<Rightarrow> string \<Rightarrow> error + string" where
  "dict_get d k = (case map_of d k of None \<Rightarrow> Inl (KeyError k) | Some v \<Rightarrow> Inr v)"

text \<open>\<^verbatim>\<open>d.pop(k, None)\<close>: removes the key when present, and does nothing otherwise.\<close>

definition dict_pop :: "('k \<times> 'v) list \<Rightarrow> 'k \<Rightarrow> ('k \<times> 'v) list" where
  "dict_pop d k = filter (\<lambda>kv. fst kv \<noteq> k) d"

text \<open>\<^verbatim>\<open>d[k] = v\<close>: an existing key keeps its position, a new key goes last.\<close>

fun dict_set :: "('k \<times> 'v) list \<Rightarrow> 'k \<Rightarrow> 'v \<Rightarrow> ('k \<times> 'v) list" where
  "dict_set [] k v = [(k, v)]"
| "dict_set (kv # d) k v = (if fst kv = k then (k, v) # d else kv # dict_set d k v)"

text \<open>\<^verbatim>\<open>set(xs)\<close>, \<^verbatim>\<open>a - b\<close> and \<^verbatim>\<open>s.add(x)\<close> on sets.\<close>

definition py_set :: "'a list \<Rightarrow> 'a list" where
  "py_set xs = remdups xs"

definition set_diff :: "'a list \<Rightarrow> 'a list \<Rightarrow> 'a list" where
  "set_diff a b = filter (\<lambda>x. x \<notin> set b) a"

definition set_add :: "'a list \<Rightarrow> 'a \<Rightarrow> 'a list" where
  "set_add s x = (if x \<in> set s then s else s @ [x])"

text \<open>
  An iteration order is admissible when it lists exactly the elements of the set, each once.
\<close>

definition set_iter_ok :: "(string list \<Rightarrow> string list) \<Rightarrow> bool" where
  "set_iter_ok set_iter = (\<forall>xs. mset (set_iter xs) = mset xs)"

definition diff_iter_ok :: "(string list \<Rightarrow> string list \<Rightarrow> string list) \<Rightarrow> bool" where
  "diff_iter_ok diff_iter =
     (\<forall>a b. distinct (diff_iter a b) \<and> set (diff_iter a b) = set a - set b)"

text \<open>\<^verbatim>\<open>a in b\<close> on strings: \<open>a\<close> occurs in \<open>b\<close> as a contiguous substring.\<close>

fun str_in :: "string \<Rightarrow> string \<Rightarrow> bool" where
  "str_in p [] = (p = [])"
| "str_in p (c # cs) = (prefix p (c # cs) \<or> str_in p cs)"

text \<open>\<^verbatim>\<open>s.removesuffix(t)\<close>.\<close>

definition removesuffix :: "string \<Rightarrow> string \<Rightarrow> string" where
  "removesuffix s t = (if t \<noteq> [] \<and> suffix t s then take (length s - length t) s else s)"

text \<open>The decimal text of a natural number, as an f-string renders \<^verbatim>\<open>len(...)\<close>.\<close>

definition digit :: "nat \<Rightarrow> char" where
  "digit n = char_of (48 + n)"

function str_nat :: "nat \<Rightarrow> string" where
  "str_nat n = (if n < 10 then [digit n] else str_nat (n div 10) @ [digit (n mod 10)])"
  by pat_completeness auto
termination
  by (relation "measure (\<lambda>n. n)") auto

declare str_nat.simps [simp del]

definition warning_sign :: string where
  "warning_sign = [CHR 0xE2, CHR 0x9A, CHR 0xA0]"

definition check_mark :: string where
  "check_mark = [CHR 0xE2, CHR 0x9C, CHR 0x85]"

definition section_sign :: string where
  "section_sign = [CHR 0xC2, CHR 0xA7]"

text \<open>Sequencing of two calls: an exception of the first call skips the second.\<close>

definition and_then :: "unit run \<Rightarrow> unit run \<Rightarrow> unit run" where
  "and_then a b =
     (case snd a of
        Inl e \<Rightarrow> (fst a, Inl e)
      | Inr u \<Rightarrow> (fst a @ fst b, snd b))"

section \<open>show_translation_stats\<close>

text \<open>
  The percentage is computed in floating point and rendered with \<^verbatim>\<open>:.2f\<close>. The text of
  \<^verbatim>\<open>f"{n / m * 100:.2f}"\<close> for \<open>m \<noteq> 0\<close> is the parameter \<open>pct n m\<close>; the division by
  zero, which Python raises before it formats anything, is a branch of the model.
\<close>

definition stats_row :: "string \<Rightarrow> nat \<Rightarrow> string \<Rightarrow> string" where
  "stats_row lang n p = ''| '' @ lang @ '' | '' @ str_nat n @ '' | '' @ p @ ''% |''"

fun stats_loop ::
  "(nat \<Rightarrow> nat \<Rightarrow> string) \<Rightarrow> table \<Rightarrow> lang_tables \<Rightarrow> string list \<Rightarrow> unit run" where
  "stats_loop pct en_us [] out = (out, Inr ())"
| "stats_loop pct en_us ((lang, data) # rest) out =
     (if length en_us = 0 then (out, Inl ZeroDivisionError)
      else stats_loop pct en_us rest
             (out @ [stats_row lang (length data) (pct (length data) (length en_us))]))"

definition show_translation_stats ::
  "(nat \<Rightarrow> nat \<Rightarrow> string) \<Rightarrow> table \<Rightarrow> lang_tables \<Rightarrow> unit run" where
  "show_translation_stats pct en_us translations =
     (case stats_loop pct en_us translations
             [''| Language | Translated | % |'',
              ''| --- | --- | --- |'',
              ''| en_us | '' @ str_nat (length en_us) @ '' | 100.00% |''] of
        (out, Inl e) \<Rightarrow> (out, Inl e)
      | (out, Inr u) \<Rightarrow> (out @ [''''], Inr ()))"

section \<open>check_extra_keys\<close>

definition extra_keys_header :: "string \<Rightarrow> nat \<Rightarrow> string" where
  "extra_keys_header lang n =
     warning_sign @ '' '' @ lang
       @ ''.json contains translations that don't exist in en_us.json (''
       @ str_nat n @ '' found):''"

definition extra_keys_ok :: string where
  "extra_keys_ok = check_mark @ '' No extra keys found''"

definition extra_keys_error :: error where
  "extra_keys_error = Exception ''Found extra keys in one or more translation files''"

definition extra_keys_step ::
  "(string list \<Rightarrow> string list \<Rightarrow> string list) \<Rightarrow> table \<Rightarrow> string \<times> table
     \<Rightarrow> bool \<times> string list \<Rightarrow> bool \<times> string list" where
  "extra_keys_step diff_iter en_us = (\<lambda>(lang, data) (extra_keys_found, out).
     (let extra_keys = set_diff (py_set (keys data)) (py_set (keys en_us))
      in if extra_keys \<noteq> []
         then (True, out @ extra_keys_header lang (length extra_keys)
                       # map (\<lambda>key. ''- '' @ key) (diff_iter (keys data) (keys en_us)))
         else (extra_keys_found, out)))"

definition check_extra_keys ::
  "(string list \<Rightarrow> string list \<Rightarrow> string list) \<Rightarrow> table \<Rightarrow> lang_tables \<Rightarrow> unit run" where
  "check_extra_keys diff_iter en_us translations =
     (case fold (extra_keys_step diff_iter en_us) translations (False, []) of
        (extra_keys_found, out) \<Rightarrow>
          if extra_keys_found then (out, Inl extra_keys_error)
          else (out @ [extra_keys_ok], Inr ()))"

section \<open>check_untranslated_strings\<close>

definition untranslated_header :: "string \<Rightarrow> nat \<Rightarrow> string" where
  "untranslated_header lang n =
     warning_sign @ '' '' @ lang
       @ ''.json contains strings that are identical to en_us.json (''
       @ str_nat n @ '' found):''"

definition untranslated_hint :: string where
  "untranslated_hint =
     CHR 0x0A # ''If this is intentional, add the affected key(s) to intentionally_untranslated.json:''"

definition untranslated_ok :: string where
  "untranslated_ok = check_mark @ '' No accidentally untranslated strings found''"

definition untranslated_error :: error where
  "untranslated_error =
     Exception ''Found untranslated strings in one or more translation files''"

text \<open>
  \<^verbatim>\<open>lang in intentionally_untranslated and key in intentionally_untranslated[lang]\<close>
\<close>

definition exempted :: "exemptions \<Rightarrow> string \<Rightarrow> string \<Rightarrow> bool" where
  "exempted intentionally_untranslated lang key =
     (case map_of intentionally_untranslated lang of
        None \<Rightarrow> False
      | Some ks \<Rightarrow> key \<in> set ks)"

text \<open>The inner loop (lines 56 to 60): it collects the set \<^verbatim>\<open>untranslated_strings\<close>.\<close>

fun collect_untranslated ::
  "exemptions \<Rightarrow> table \<Rightarrow> string \<Rightarrow> table \<Rightarrow> string list \<Rightarrow> error + string list" where
  "collect_untranslated iu en_us lang [] untranslated_strings = Inr untranslated_strings"
| "collect_untranslated iu en_us lang ((key, val) # rest) untranslated_strings =
     (case dict_get en_us key of
        Inl e \<Rightarrow> Inl e
      | Inr ref \<Rightarrow>
          if val = ref then
            (if exempted iu lang key
             then collect_untranslated iu en_us lang rest untranslated_strings
             else collect_untranslated iu en_us lang rest (set_add untranslated_strings key))
          else collect_untranslated iu en_us lang rest untranslated_strings)"

text \<open>The loop of lines 66 and 67, one line per key, with the lookup \<^verbatim>\<open>en_us[key]\<close>.\<close>

fun untranslated_key_lines :: "table \<Rightarrow> string list \<Rightarrow> string list \<Rightarrow> unit run" where
  "untranslated_key_lines en_us [] out = (out, Inr ())"
| "untranslated_key_lines en_us (key # rest) out =
     (case dict_get en_us key of
        Inl e \<Rightarrow> (out, Inl e)
      | Inr ref \<Rightarrow> untranslated_key_lines en_us rest (out @ [''- '' @ key @ '': '' @ ref]))"

definition untranslated_json :: "string \<Rightarrow> string list \<Rightarrow> string list" where
  "untranslated_json lang ks =
     [untranslated_hint, ''```json'', ''  '' @ [CHR 0x22] @ lang @ [CHR 0x22] @ '': ['']
       @ map (\<lambda>key. ''    '' @ [CHR 0x22] @ key @ [CHR 0x22]) ks
       @ [''  ]'', ''```'']"

fun untranslated_loop ::
  "(string list \<Rightarrow> string list) \<Rightarrow> exemptions \<Rightarrow> table \<Rightarrow> lang_tables \<Rightarrow> bool \<Rightarrow> string list
     \<Rightarrow> bool run" where
  "untranslated_loop set_iter iu en_us [] found out = (out, Inr found)"
| "untranslated_loop set_iter iu en_us ((lang, data) # rest) found out =
     (case collect_untranslated iu en_us lang data [] of
        Inl e \<Rightarrow> (out, Inl e)
      | Inr untranslated_strings \<Rightarrow>
          if untranslated_strings \<noteq> [] then
            (case untranslated_key_lines en_us (set_iter untranslated_strings)
                    (out @ [untranslated_header lang (length untranslated_strings)]) of
               (out', Inl e) \<Rightarrow> (out', Inl e)
             | (out', Inr u) \<Rightarrow>
                 untranslated_loop set_iter iu en_us rest True
                   (out' @ untranslated_json lang (set_iter untranslated_strings)))
          else untranslated_loop set_iter iu en_us rest found out)"

text \<open>
  The exemption table is read from a file when the check starts; \<open>iu_file\<close> is the outcome
  of that read.
\<close>

definition check_untranslated_strings ::
  "(string list \<Rightarrow> string list) \<Rightarrow> error + exemptions \<Rightarrow> table \<Rightarrow> lang_tables \<Rightarrow> unit run" where
  "check_untranslated_strings set_iter iu_file en_us translations =
     (case iu_file of
        Inl e \<Rightarrow> ([], Inl e)
      | Inr intentionally_untranslated \<Rightarrow>
          (case untranslated_loop set_iter intentionally_untranslated en_us translations False [] of
             (out, Inl e) \<Rightarrow> (out, Inl e)
           | (out, Inr untranslated_strings_found) \<Rightarrow>
               if untranslated_strings_found then (out, Inl untranslated_error)
               else (out @ [untranslated_ok], Inr ())))"

section \<open>check_order_of_strings\<close>

definition order_error :: "string \<Rightarrow> error" where
  "order_error lang =
     Exception (warning_sign @ '' The order of strings in '' @ lang
                  @ ''.json is different from en_us.json'')"

definition order_ok :: string where
  "order_ok = check_mark @ '' The order of strings in each translation file matches en_us.json''"

fun order_loop :: "table \<Rightarrow> lang_tables \<Rightarrow> error + unit" where
  "order_loop en_us [] = Inr ()"
| "order_loop en_us ((lang, data) # rest) =
     (let en_us_keys_present_in_translation = filter (\<lambda>key. key \<in> set (keys data)) (keys en_us);
          translation_keys_present_in_en_us = filter (\<lambda>key. key \<in> set (keys en_us)) (keys data)
      in if en_us_keys_present_in_translation \<noteq> translation_keys_present_in_en_us
         then Inl (order_error lang)
         else order_loop en_us rest)"

definition check_order_of_strings :: "table \<Rightarrow> lang_tables \<Rightarrow> unit run" where
  "check_order_of_strings en_us translations =
     (case order_loop en_us translations of
        Inl e \<Rightarrow> ([], Inl e)
      | Inr u \<Rightarrow> ([order_ok], Inr ()))"

section \<open>check_known_issues\<close>

definition known_typos :: "(string \<times> string) list" where
  "known_typos =
     [(''Anchoraura'', ''AnchorAura''),
      (''Autobuild'', ''AutoBuild''),
      (''Clickaura'', ''ClickAura''),
      (''KillAura'', ''Killaura''),
      (''LegitNuker'', ''Nuker''),
      (''LegitKillaura'', ''KillauraLegit''),
      (''Nofall'', ''NoFall''),
      (''Triggerbot'', ''TriggerBot'')]"

definition typo_header :: "string \<Rightarrow> string \<Rightarrow> string \<Rightarrow> string \<Rightarrow> string" where
  "typo_header lang key correct typo =
     warning_sign @ '' In '' @ lang @ ''.json string '' @ key @ '', the word ''
       @ [CHR 0x27] @ correct @ [CHR 0x27] @ '' is incorrectly translated as ''
       @ [CHR 0x27] @ typo @ [CHR 0x27] @ '':''"

definition json_entry :: "string \<Rightarrow> string \<Rightarrow> string" where
  "json_entry key val =
     ''  '' @ [CHR 0x22] @ key @ [CHR 0x22] @ '': '' @ [CHR 0x22] @ val @ [CHR 0x22]"

definition typo_step ::
  "string \<Rightarrow> string \<Rightarrow> string \<Rightarrow> string \<times> string \<Rightarrow> bool \<times> string list \<Rightarrow> bool \<times> string list" where
  "typo_step lang key val = (\<lambda>(typo, correct) (issues_found, out).
     if str_in typo val
     then (True, out @ [typo_header lang key correct typo, ''```json'', json_entry key val, ''```''])
     else (issues_found, out))"

definition boatfly_key :: string where
  "boatfly_key = ''description.wurst.hack.boatfly''"

definition radar_key :: string where
  "radar_key = ''description.wurst.hack.radar''"

definition boatfly_warning :: "string \<Rightarrow> string" where
  "boatfly_warning lang =
     warning_sign @ '' In '' @ lang @ ''.json, the translation for '' @ boatfly_key
       @ '' incorrectly suggests using the shift (sneak) key instead of ctrl (sprint) to descend''"

definition radar_warning :: "string \<Rightarrow> string" where
  "radar_warning lang =
     warning_sign @ '' In '' @ lang @ ''.json, the translation for '' @ radar_key
       @ '' contains untranslated colors:''"

definition color_red :: string where
  "color_red = section_sign @ ''cred'' @ section_sign @ ''r''"

definition color_green :: string where
  "color_green = section_sign @ ''agreen'' @ section_sign @ ''r''"

definition color_gray :: string where
  "color_gray = section_sign @ ''7gray'' @ section_sign @ ''r''"

text \<open>
  The body of the second loop (lines 122 to 143). \<open>lower\<close> stands for Python's
  \<^verbatim>\<open>str.lower\<close>, whose Unicode case mapping is not modelled.
\<close>

definition difficult_step ::
  "(string \<Rightarrow> string) \<Rightarrow> string \<times> table \<Rightarrow> bool \<times> string list \<Rightarrow> bool \<times> string list" where
  "difficult_step lower = (\<lambda>(lang, data) (issues_found, out).
     (let (issues_found1, out1) =
            (if (case map_of data boatfly_key of
                   None \<Rightarrow> False
                 | Some v \<Rightarrow> str_in ''shift'' (lower v))
             then (True, out @ [boatfly_warning lang])
             else (issues_found, out))
      in if (case map_of data radar_key of
               None \<Rightarrow> False
             | Some v \<Rightarrow> str_in color_red v \<or> str_in color_green v \<or> str_in color_gray v)
         then (True, out1 @ [radar_warning lang, ''```json'',
                             json_entry radar_key (case map_of data radar_key of
                                                     None \<Rightarrow> [] | Some v \<Rightarrow> v),
                             ''```''])
         else (issues_found1, out1)))"

definition known_issues_ok :: string where
  "known_issues_ok = check_mark @ '' No known issues found in any translation files''"

definition known_issues_error :: error where
  "known_issues_error = Exception ''Found known issues in one or more translation files''"

definition check_known_issues :: "(string \<Rightarrow> string) \<Rightarrow> table \<Rightarrow> lang_tables \<Rightarrow> unit run" where
  "check_known_issues lower en_us translations =
     (case fold (difficult_step lower) translations
             (fold (\<lambda>(lang, data). fold (\<lambda>(key, val). fold (typo_step lang key val) known_typos) data)
                translations (False, [])) of
        (issues_found, out) \<Rightarrow>
          if issues_found then (out, Inl known_issues_error)
          else (out @ [known_issues_ok], Inr ()))"

section \<open>main\<close>

text \<open>
  The language directory as \<open>main\<close> sees it: the outcome of reading
  \<^verbatim>\<open>lang_dir / "en_us.json"\<close>, and the paths that \<^verbatim>\<open>lang_dir.rglob("*.json")\<close> yields, each
  with its file name, whether it is a regular file, and the outcome of reading it.
\<close>

record json_path =
  path_name :: string
  path_is_file :: bool
  path_read :: "error + table"

record lang_dir =
  en_us_file :: "error + table"
  rglob_json :: "json_path list"

text \<open>The loop of lines 153 to 160, over the paths already sorted by name.\<close>

fun load_loop :: "json_path list \<Rightarrow> lang_tables \<Rightarrow> error + lang_tables" where
  "load_loop [] translations = Inr translations"
| "load_loop (p # ps) translations =
     (if path_is_file p \<and> path_name p \<noteq> ''en_us.json'' then
        (case path_read p of
           Inl e \<Rightarrow> Inl e
         | Inr data \<Rightarrow>
             load_loop ps
               (dict_set translations (removesuffix (path_name p) ''.json'')
                  (dict_pop (dict_pop (dict_pop data ''language.name'') ''language.region'')
                     ''language.code'')))
      else load_loop ps translations)"

text \<open>Lines 151 to 160: the tables that the checks receive.\<close>

definition load :: "lang_dir \<Rightarrow> error + (table \<times> lang_tables)" where
  "load dir =
     (case en_us_file dir of
        Inl e \<Rightarrow> Inl e
      | Inr en_us \<Rightarrow>
          (case load_loop (sort_key path_name (rglob_json dir)) [] of
             Inl e \<Rightarrow> Inl e
           | Inr translations \<Rightarrow> Inr (en_us, translations)))"

definition main ::
  "(string list \<Rightarrow> string list \<Rightarrow> string list) \<Rightarrow> (string list \<Rightarrow> string list)
     \<Rightarrow> (nat \<Rightarrow> nat \<Rightarrow> string) \<Rightarrow> (string \<Rightarrow> string) \<Rightarrow> error + exemptions
     \<Rightarrow> lang_dir \<Rightarrow> bool \<Rightarrow> unit run" where
  "main diff_iter set_iter pct lower iu_file dir wurst_mode =
     (case load dir of
        Inl e \<Rightarrow> ([], Inl e)
      | Inr (en_us, translations) \<Rightarrow>
          and_then (show_translation_stats pct en_us translations)
         (and_then (check_extra_keys diff_iter en_us translations)
         (and_then (check_untranslated_strings set_iter iu_file en_us translations)
         (and_then (check_order_of_strings en_us translations)
            (if wurst_mode then check_known_issues lower en_us translations
             else ([], Inr ()))))))"

section \<open>Auxiliary definitions\<close>

text \<open>What one language adds to the report of the extra-keys check.\<close>

definition extra_keys_block ::
  "(string list \<Rightarrow> string list \<Rightarrow> string list) \<Rightarrow> table \<Rightarrow> string \<times> table \<Rightarrow> string list" where
  "extra_keys_block diff_iter en_us = (\<lambda>(lang, data).
     if set (keys data) \<subseteq> set (keys en_us) then []
     else extra_keys_header lang (card (set (keys data) - set (keys en_us)))
            # map (\<lambda>key. ''- '' @ key) (diff_iter (keys data) (keys en_us)))"

text \<open>
  Two admissible iteration orders of a difference set, for the examples: the elements in
  the order of the first list, and in the opposite order.
\<close>

definition diff_iter_listed :: "string list \<Rightarrow> string list \<Rightarrow> string list" where
  "diff_iter_listed a b = set_diff (py_set a) (py_set b)"

definition diff_iter_reversed :: "string list \<Rightarrow> string list \<Rightarrow> string list" where
  "diff_iter_reversed a b = rev (set_diff (py_set a) (py_set b))"

text \<open>
  The set of keys the untranslated-strings check collects for one language, the report line
  of one key, and what one language adds to the report.
\<close>

definition untranslated_of :: "exemptions \<Rightarrow> table \<Rightarrow> string \<Rightarrow> table \<Rightarrow> string list" where
  "untranslated_of iu en_us lang data =
     (case collect_untranslated iu en_us lang data [] of Inl e \<Rightarrow> [] | Inr us \<Rightarrow> us)"

definition untranslated_line :: "table \<Rightarrow> string \<Rightarrow> string" where
  "untranslated_line en_us key =
     ''- '' @ key @ '': '' @ (case map_of en_us key of None \<Rightarrow> [] | Some v \<Rightarrow> v)"

definition untranslated_block ::
  "(string list \<Rightarrow> string list) \<Rightarrow> exemptions \<Rightarrow> table \<Rightarrow> string \<times> table \<Rightarrow> string list" where
  "untranslated_block so iu en_us = (\<lambda>(lang, data).
     (let us = untranslated_of iu en_us lang data
      in if us = [] then []
         else untranslated_header lang (length us) # map (untranslated_line en_us) (so us)
                @ untranslated_json lang (so us)))"

text \<open>
  The lines of the known-issues check: for one entry, for one language in the typo loop,
  and for one language in the loop over the two difficult strings.
\<close>

definition typo_lines :: "string \<Rightarrow> string \<Rightarrow> string \<Rightarrow> string list" where
  "typo_lines lang key val =
     concat (map (\<lambda>(typo, correct).
                    if str_in typo val
                    then [typo_header lang key correct typo, ''```json'', json_entry key val, ''```'']
                    else []) known_typos)"

definition typo_block :: "string \<times> table \<Rightarrow> string list" where
  "typo_block = (\<lambda>(lang, data). concat (map (\<lambda>(key, val). typo_lines lang key val) data))"

definition has_typo :: "string \<Rightarrow> bool" where
  "has_typo val = (\<exists>(typo, correct) \<in> set known_typos. str_in typo val)"

definition boatfly_hit :: "(string \<Rightarrow> string) \<Rightarrow> table \<Rightarrow> bool" where
  "boatfly_hit lower data =
     (case map_of data boatfly_key of None \<Rightarrow> False | Some v \<Rightarrow> str_in ''shift'' (lower v))"

definition radar_hit :: "table \<Rightarrow> bool" where
  "radar_hit data =
     (case map_of data radar_key of
        None \<Rightarrow> False
      | Some v \<Rightarrow> str_in color_red v \<or> str_in color_green v \<or> str_in color_gray v)"

definition difficult_block :: "(string \<Rightarrow> string) \<Rightarrow> string \<times> table \<Rightarrow> string list" where
  "difficult_block lower = (\<lambda>(lang, data).
     (if boatfly_hit lower data then [boatfly_warning lang] else [])
     @ (if radar_hit data
        then [radar_warning lang, ''```json'',
              json_entry radar_key (case map_of data radar_key of None \<Rightarrow> [] | Some v \<Rightarrow> v),
              ''```'']
        else []))"

text \<open>
  A stand-in for the formatted percentage in the examples: the integer part of the
  percentage with two zero decimals.
\<close>

definition pct_floor :: "nat \<Rightarrow> nat \<Rightarrow> string" where
  "pct_floor n m = str_nat (n * 100 div m) @ ''.00''"

text \<open>
  A key line is a report line that lists one offending key: \<^verbatim>\<open>- key\<close> of the extra-keys
  check, \<^verbatim>\<open>- key: value\<close> and the quoted key of the suggested exemption entry of the
  untranslated-strings check. \<open>sort_key_runs\<close> sorts every maximal run of consecutive key
  lines of a report and leaves every other line where it is: two reports with the same
  image differ only in the order of the key lines inside such runs.
\<close>

definition key_line :: "string \<Rightarrow> bool" where
  "key_line l = (prefix ''- '' l \<or> prefix (''    '' @ [CHR 0x22]) l)"

function sort_key_runs :: "string list \<Rightarrow> string list" where
  "sort_key_runs [] = []"
| "sort_key_runs (l # ls) =
     (if key_line l
      then sort (l # takeWhile key_line ls) @ sort_key_runs (dropWhile key_line ls)
      else l # sort_key_runs ls)"
  by pat_completeness auto
termination
  by (relation "measure length") (auto simp: less_Suc_eq_le length_dropWhile_le)

text \<open>
  For the proofs: a report that is empty or starts with a line that is not a key line, and
  two such reports with the same image under \<open>sort_key_runs\<close>.
\<close>

definition starts_plain :: "string list \<Rightarrow> bool" where
  "starts_plain ls = (case ls of [] \<Rightarrow> True | l # _ \<Rightarrow> \<not> key_line l)"

definition same_key_runs :: "string list \<Rightarrow> string list \<Rightarrow> bool" where
  "same_key_runs xs ys =
     (sort_key_runs xs = sort_key_runs ys \<and> starts_plain xs \<and> starts_plain ys)"

section \<open>The extra-keys check\<close>

lemma set_iter_ok_set: "set_iter_ok so \<Longrightarrow> set (so xs) = set xs"
  unfolding set_iter_ok_def by (metis set_mset_mset)

lemma set_iter_ok_length: "set_iter_ok so \<Longrightarrow> length (so xs) = length xs"
  unfolding set_iter_ok_def by (metis size_mset)

lemma diff_iter_ok_listed: "diff_iter_ok diff_iter_listed"
  by (auto simp: diff_iter_ok_def diff_iter_listed_def set_diff_def py_set_def)

lemma diff_iter_ok_reversed: "diff_iter_ok diff_iter_reversed"
  by (auto simp: diff_iter_ok_def diff_iter_reversed_def set_diff_def py_set_def)

lemma set_extra_keys:
  "set (set_diff (py_set (keys d)) (py_set (keys en_us))) = set (keys d) - set (keys en_us)"
  by (auto simp: set_diff_def py_set_def)

lemma extra_keys_empty_iff:
  "set_diff (py_set (keys d)) (py_set (keys en_us)) = [] \<longleftrightarrow> set (keys d) \<subseteq> set (keys en_us)"
  using set_extra_keys [of d en_us] by (metis Diff_eq_empty_iff set_empty)

lemma length_extra_keys:
  "length (set_diff (py_set (keys d)) (py_set (keys en_us))) = card (set (keys d) - set (keys en_us))"
proof -
  have "distinct (set_diff (py_set (keys d)) (py_set (keys en_us)))"
    by (simp add: set_diff_def py_set_def)
  then show ?thesis
    using set_extra_keys [of d en_us] by (metis distinct_card)
qed

lemma extra_keys_step_eq:
  "extra_keys_step di en_us (l, d) (f, out) =
     (f \<or> \<not> set (keys d) \<subseteq> set (keys en_us), out @ extra_keys_block di en_us (l, d))"
  by (simp add: extra_keys_step_def Let_def extra_keys_empty_iff extra_keys_block_def
      length_extra_keys)

lemma extra_keys_fold:
  "fold (extra_keys_step di en_us) ts (f, out) =
     (f \<or> (\<exists>(l, d) \<in> set ts. \<not> set (keys d) \<subseteq> set (keys en_us)),
      out @ concat (map (extra_keys_block di en_us) ts))"
proof (induction ts arbitrary: f out)
  case Nil
  show ?case by simp
next
  case (Cons t ts)
  obtain l d where t: "t = (l, d)" by (cases t)
  show ?case
    by (auto simp: t extra_keys_step_eq Cons.IH)
qed

lemma check_extra_keys_eq:
  "check_extra_keys di en_us ts =
     (if \<forall>(l, d) \<in> set ts. set (keys d) \<subseteq> set (keys en_us)
      then (concat (map (extra_keys_block di en_us) ts) @ [extra_keys_ok], Inr ())
      else (concat (map (extra_keys_block di en_us) ts), Inl extra_keys_error))"
  by (auto simp: check_extra_keys_def extra_keys_fold)

lemma extra_keys_block_pass:
  "\<forall>(l, d) \<in> set ts. set (keys d) \<subseteq> set (keys en_us) \<Longrightarrow>
   concat (map (extra_keys_block di en_us) ts) = []"
  by (induction ts) (auto simp: extra_keys_block_def)

lemma set_keys: "set (keys d) = fst ` set d"
  by (simp add: keys_def)

text \<open>
  Claim C1. The extra-keys check returns normally exactly when the keys of every language
  are keys of the reference table, and then its report is the single confirmation line.
  Otherwise it raises the exception "Found extra keys", and by then the report holds, for
  every language with an extra key and in the order of the languages, the line that names
  the language, followed by one line for each of its extra keys, each listed once.
\<close>

theorem check_extra_keys_correct:
  assumes "diff_iter_ok diff_iter"
  shows "check_extra_keys diff_iter en_us translations =
     (if \<forall>(lang, data) \<in> set translations. fst ` set data \<subseteq> fst ` set en_us
      then ([[CHR 0xE2, CHR 0x9C, CHR 0x85] @ '' No extra keys found''], Inr ())
      else (concat (map (\<lambda>(lang, data).
                if fst ` set data \<subseteq> fst ` set en_us then []
                else ([CHR 0xE2, CHR 0x9A, CHR 0xA0] @ '' '' @ lang
                        @ ''.json contains translations that don't exist in en_us.json (''
                        @ str_nat (card (fst ` set data - fst ` set en_us)) @ '' found):'')
                     # map (\<lambda>key. ''- '' @ key) (diff_iter (map fst data) (map fst en_us)))
              translations),
            Inl (Exception ''Found extra keys in one or more translation files'')))
   \<and> (\<forall>(lang, data) \<in> set translations.
         distinct (diff_iter (map fst data) (map fst en_us))
         \<and> set (diff_iter (map fst data) (map fst en_us)) = fst ` set data - fst ` set en_us)"
proof -
  have blk: "extra_keys_block diff_iter en_us = (\<lambda>(lang, data).
                if fst ` set data \<subseteq> fst ` set en_us then []
                else ([CHR 0xE2, CHR 0x9A, CHR 0xA0] @ '' '' @ lang
                        @ ''.json contains translations that don't exist in en_us.json (''
                        @ str_nat (card (fst ` set data - fst ` set en_us)) @ '' found):'')
                     # map (\<lambda>key. ''- '' @ key) (diff_iter (map fst data) (map fst en_us)))"
    by (rule ext)
      (simp add: extra_keys_block_def extra_keys_header_def warning_sign_def keys_def
        split: prod.split)
  have 1: "check_extra_keys diff_iter en_us translations =
     (if \<forall>(lang, data) \<in> set translations. fst ` set data \<subseteq> fst ` set en_us
      then ([[CHR 0xE2, CHR 0x9C, CHR 0x85] @ '' No extra keys found''], Inr ())
      else (concat (map (\<lambda>(lang, data).
                if fst ` set data \<subseteq> fst ` set en_us then []
                else ([CHR 0xE2, CHR 0x9A, CHR 0xA0] @ '' '' @ lang
                        @ ''.json contains translations that don't exist in en_us.json (''
                        @ str_nat (card (fst ` set data - fst ` set en_us)) @ '' found):'')
                     # map (\<lambda>key. ''- '' @ key) (diff_iter (map fst data) (map fst en_us)))
              translations),
            Inl (Exception ''Found extra keys in one or more translation files'')))"
  proof (cases "\<forall>(lang, data) \<in> set translations. fst ` set data \<subseteq> fst ` set en_us")
    case True
    then have t: "\<forall>(l, d) \<in> set translations. set (keys d) \<subseteq> set (keys en_us)"
      by (simp add: set_keys)
    have "check_extra_keys diff_iter en_us translations = ([extra_keys_ok], Inr ())"
      by (simp add: check_extra_keys_eq t extra_keys_block_pass [OF t])
    with True show ?thesis
      by (simp add: extra_keys_ok_def check_mark_def)
  next
    case False
    then have f: "\<not> (\<forall>(l, d) \<in> set translations. set (keys d) \<subseteq> set (keys en_us))"
      by (simp add: set_keys)
    have "check_extra_keys diff_iter en_us translations =
            (concat (map (extra_keys_block diff_iter en_us) translations), Inl extra_keys_error)"
      using f by (simp only: check_extra_keys_eq if_False)
    then show ?thesis
      unfolding blk extra_keys_error_def using False by (simp only: if_False)
  qed
  have 2: "\<forall>(lang, data) \<in> set translations.
         distinct (diff_iter (map fst data) (map fst en_us))
         \<and> set (diff_iter (map fst data) (map fst en_us)) = fst ` set data - fst ` set en_us"
    using assms by (simp add: diff_iter_ok_def split: prod.split)
  from 1 2 show ?thesis by (rule conjI)
qed

theorem check_extra_keys_correct_witness:
  "diff_iter_ok diff_iter_listed
   \<and> check_extra_keys diff_iter_listed [(''a'', ''X''), (''b'', ''Y'')]
        [(''fr'', [(''a'', ''X''), (''b'', ''Z'')]),
         (''de'', [(''c'', ''W''), (''a'', ''X''), (''d'', ''V'')]),
         (''it'', [(''d'', ''V'')])]
     = ([[CHR 0xE2, CHR 0x9A, CHR 0xA0]
           @ '' de.json contains translations that don't exist in en_us.json (2 found):'',
         ''- c'', ''- d'',
         [CHR 0xE2, CHR 0x9A, CHR 0xA0]
           @ '' it.json contains translations that don't exist in en_us.json (1 found):'',
         ''- d''],
        Inl (Exception ''Found extra keys in one or more translation files''))
   \<and> check_extra_keys diff_iter_listed [(''a'', ''X''), (''b'', ''Y'')]
        [(''fr'', [(''a'', ''X''), (''b'', ''Z'')])]
     = ([[CHR 0xE2, CHR 0x9C, CHR 0x85] @ '' No extra keys found''], Inr ())"
proof -
  note ok = diff_iter_ok_listed
  note a = check_extra_keys_correct [OF ok, THEN conjunct1, of "[(''a'', ''X''), (''b'', ''Y'')]"
        "[(''fr'', [(''a'', ''X''), (''b'', ''Z'')]),
         (''de'', [(''c'', ''W''), (''a'', ''X''), (''d'', ''V'')]),
         (''it'', [(''d'', ''V'')])]"]
  note b = check_extra_keys_correct [OF ok, THEN conjunct1, of "[(''a'', ''X''), (''b'', ''Y'')]"
        "[(''fr'', [(''a'', ''X''), (''b'', ''Z'')])]"]
  have a': "check_extra_keys diff_iter_listed [(''a'', ''X''), (''b'', ''Y'')]
        [(''fr'', [(''a'', ''X''), (''b'', ''Z'')]),
         (''de'', [(''c'', ''W''), (''a'', ''X''), (''d'', ''V'')]),
         (''it'', [(''d'', ''V'')])]
     = ([[CHR 0xE2, CHR 0x9A, CHR 0xA0]
           @ '' de.json contains translations that don't exist in en_us.json (2 found):'',
         ''- c'', ''- d'',
         [CHR 0xE2, CHR 0x9A, CHR 0xA0]
           @ '' it.json contains translations that don't exist in en_us.json (1 found):'',
         ''- d''],
        Inl (Exception ''Found extra keys in one or more translation files''))"
    unfolding a by code_simp
  have b': "check_extra_keys diff_iter_listed [(''a'', ''X''), (''b'', ''Y'')]
        [(''fr'', [(''a'', ''X''), (''b'', ''Z'')])]
     = ([[CHR 0xE2, CHR 0x9C, CHR 0x85] @ '' No extra keys found''], Inr ())"
    unfolding b by code_simp
  from ok a' b' show ?thesis by (intro conjI)
qed

section \<open>The untranslated-strings check\<close>

lemma dict_get_Inr: "k \<in> set (keys d) \<Longrightarrow> \<exists>v. dict_get d k = Inr v \<and> map_of d k = Some v"
  by (cases "map_of d k") (auto simp: dict_get_def keys_def map_of_eq_None_iff)

lemma dict_get_Inl: "dict_get d k = Inl e \<Longrightarrow> e = KeyError k \<and> k \<notin> set (keys d)"
  by (cases "map_of d k") (auto simp: dict_get_def keys_def map_of_eq_None_iff)

lemma dict_get_missing:
  assumes "k \<notin> set (keys d)"
  shows "dict_get d k = Inl (KeyError k)"
proof -
  have "map_of d k = None"
    using assms by (simp add: keys_def map_of_eq_None_iff)
  then show ?thesis
    by (simp add: dict_get_def)
qed

lemma map_of_Some_keys: "map_of d k = Some v \<Longrightarrow> k \<in> set (keys d)"
  by (metis keys_def map_of_eq_None_iff option.distinct(1) set_map)

lemma collect_untranslated_ok:
  "set (keys data) \<subseteq> set (keys en_us) \<Longrightarrow>
   \<exists>us'. collect_untranslated iu en_us lang data us = Inr us'
     \<and> set us' = set us \<union> {k. \<exists>v. (k, v) \<in> set data \<and> map_of en_us k = Some v
                                  \<and> \<not> exempted iu lang k}"
proof (induction data arbitrary: us)
  case Nil
  show ?case by simp
next
  case (Cons kv data)
  obtain k v where kv: "kv = (k, v)" by (cases kv)
  from Cons.prems kv have k: "k \<in> set (keys en_us)" and sub: "set (keys data) \<subseteq> set (keys en_us)"
    by (auto simp: keys_def)
  from dict_get_Inr [OF k] obtain r where r: "dict_get en_us k = Inr r" "map_of en_us k = Some r"
    by blast
  show ?case
  proof (cases "v = r \<and> \<not> exempted iu lang k")
    case True
    from Cons.IH [OF sub, of "set_add us k"] obtain us' where
      "collect_untranslated iu en_us lang data (set_add us k) = Inr us'"
      "set us' = set (set_add us k) \<union> {k. \<exists>v. (k, v) \<in> set data \<and> map_of en_us k = Some v
                                  \<and> \<not> exempted iu lang k}"
      by blast
    with True r show ?thesis
      by (auto simp: kv set_add_def split: if_splits)
  next
    case False
    from Cons.IH [OF sub, of us] obtain us' where
      "collect_untranslated iu en_us lang data us = Inr us'"
      "set us' = set us \<union> {k. \<exists>v. (k, v) \<in> set data \<and> map_of en_us k = Some v
                                  \<and> \<not> exempted iu lang k}"
      by blast
    with False r show ?thesis
      by (auto simp: kv)
  qed
qed

lemma collect_untranslated_missing:
  "\<not> set (keys data) \<subseteq> set (keys en_us) \<Longrightarrow>
   \<exists>k. k \<notin> set (keys en_us) \<and> collect_untranslated iu en_us lang data us = Inl (KeyError k)"
proof (induction data arbitrary: us)
  case Nil
  then show ?case by (simp add: keys_def)
next
  case (Cons kv data)
  obtain k v where kv: "kv = (k, v)" by (cases kv)
  show ?case
  proof (cases "k \<in> set (keys en_us)")
    case True
    with Cons.prems kv have "\<not> set (keys data) \<subseteq> set (keys en_us)"
      by (auto simp: keys_def)
    from Cons.IH [OF this] have
      "\<And>us. \<exists>k. k \<notin> set (keys en_us) \<and> collect_untranslated iu en_us lang data us = Inl (KeyError k)"
      by blast
    moreover from dict_get_Inr [OF True] obtain r where "dict_get en_us k = Inr r"
      by blast
    ultimately show ?thesis
      by (simp add: kv)
  next
    case False
    then show ?thesis
      by (auto simp: kv dict_get_missing)
  qed
qed

lemma collect_untranslated_Inl:
  "collect_untranslated iu en_us lang data us = Inl e \<Longrightarrow>
   \<exists>k. k \<notin> set (keys en_us) \<and> e = KeyError k"
  by (metis collect_untranslated_missing collect_untranslated_ok sum.inject(1) Inl_Inr_False)

lemma set_untranslated_of:
  assumes "set (keys data) \<subseteq> set (keys en_us)"
  shows "collect_untranslated iu en_us lang data [] = Inr (untranslated_of iu en_us lang data)"
    and "set (untranslated_of iu en_us lang data) =
           {k. \<exists>v. (k, v) \<in> set data \<and> map_of en_us k = Some v \<and> \<not> exempted iu lang k}"
  using collect_untranslated_ok [OF assms, of iu lang "[]"]
  by (auto simp: untranslated_of_def)

lemma untranslated_key_lines_ok:
  "set ks \<subseteq> set (keys en_us) \<Longrightarrow>
   untranslated_key_lines en_us ks out =
     (out @ map (untranslated_line en_us) ks, Inr ())"
proof (induction ks arbitrary: out)
  case Nil
  show ?case by simp
next
  case (Cons k ks)
  then have "k \<in> set (keys en_us)" by simp
  from dict_get_Inr [OF this] obtain r where "dict_get en_us k = Inr r" "map_of en_us k = Some r"
    by blast
  with Cons show ?case
    by (simp add: untranslated_line_def)
qed

lemma untranslated_key_lines_Inl:
  "untranslated_key_lines en_us ks out = (out', Inl e) \<Longrightarrow>
   \<exists>k. k \<notin> set (keys en_us) \<and> e = KeyError k"
proof (induction ks arbitrary: out)
  case Nil
  then show ?case by simp
next
  case (Cons k ks)
  then show ?case
    by (cases "dict_get en_us k") (auto dest: dict_get_Inl)
qed

lemma untranslated_loop_ok:
  assumes ok: "set_iter_ok so"
  shows "\<forall>(l, d) \<in> set ts. set (keys d) \<subseteq> set (keys en_us) \<Longrightarrow>
   untranslated_loop so iu en_us ts found out =
     (out @ concat (map (untranslated_block so iu en_us) ts),
      Inr (found \<or> (\<exists>(l, d) \<in> set ts. untranslated_of iu en_us l d \<noteq> [])))"
proof (induction ts arbitrary: found out)
  case Nil
  show ?case by simp
next
  case (Cons t ts)
  obtain l d where t: "t = (l, d)" by (cases t)
  from Cons.prems t have sub: "set (keys d) \<subseteq> set (keys en_us)"
    and rest: "\<forall>(l, d) \<in> set ts. set (keys d) \<subseteq> set (keys en_us)"
    by auto
  note c = set_untranslated_of [OF sub, of iu l]
  show ?case
  proof (cases "untranslated_of iu en_us l d = []")
    case True
    then show ?thesis
      by (simp add: t c(1) Cons.IH [OF rest] untranslated_block_def)
  next
    case False
    have "set (so (untranslated_of iu en_us l d)) \<subseteq> set (keys en_us)"
      using c(2) by (auto simp: set_iter_ok_set [OF ok] dest: map_of_Some_keys)
    note kl = untranslated_key_lines_ok [OF this]
    from False show ?thesis
      by (simp add: t c(1) kl Cons.IH [OF rest] untranslated_block_def Let_def)
  qed
qed

lemma untranslated_loop_missing:
  "\<exists>(l, d) \<in> set ts. \<not> set (keys d) \<subseteq> set (keys en_us) \<Longrightarrow>
   \<exists>out' k. k \<notin> set (keys en_us)
     \<and> untranslated_loop so iu en_us ts found out = (out', Inl (KeyError k))"
proof (induction ts arbitrary: found out)
  case Nil
  then show ?case by simp
next
  case (Cons t ts)
  obtain l d where t: "t = (l, d)" by (cases t)
  show ?case
  proof (cases "collect_untranslated iu en_us l d []")
    case (Inl e)
    with collect_untranslated_Inl [OF Inl] show ?thesis
      by (auto simp: t)
  next
    case (Inr us)
    then have "set (keys d) \<subseteq> set (keys en_us)"
      using collect_untranslated_missing [of d en_us iu l "[]"] by auto
    with Cons.prems t have rest: "\<exists>(l, d) \<in> set ts. \<not> set (keys d) \<subseteq> set (keys en_us)"
      by auto
    note IH = Cons.IH [OF rest]
    show ?thesis
    proof (cases "us = []")
      case True
      with Inr IH show ?thesis by (simp add: t)
    next
      case False
      obtain o1 r1 where kl: "untranslated_key_lines en_us (so us)
                    (out @ [untranslated_header l (length us)]) = (o1, r1)"
        by (cases "untranslated_key_lines en_us (so us) (out @ [untranslated_header l (length us)])")
      show ?thesis
      proof (cases r1)
        case (Inl e)
        with untranslated_key_lines_Inl [of en_us "so us" _ o1 e] kl Inr False show ?thesis
          by (auto simp: t)
      next
        case r: (Inr u)
        with kl Inr False IH show ?thesis
          by (simp add: t)
      qed
    qed
  qed
qed

lemma check_untranslated_strings_eq:
  assumes "set_iter_ok so" "\<forall>(l, d) \<in> set ts. set (keys d) \<subseteq> set (keys en_us)"
  shows "check_untranslated_strings so (Inr iu) en_us ts =
     (if \<exists>(l, d) \<in> set ts. untranslated_of iu en_us l d \<noteq> []
      then (concat (map (untranslated_block so iu en_us) ts), Inl untranslated_error)
      else (concat (map (untranslated_block so iu en_us) ts) @ [untranslated_ok], Inr ()))"
  by (simp add: check_untranslated_strings_def untranslated_loop_ok [OF assms])

lemma collect_untranslated_distinct:
  "collect_untranslated iu en_us lang data us = Inr us' \<Longrightarrow> distinct us \<Longrightarrow> distinct us'"
proof (induction data arbitrary: us)
  case Nil
  then show ?case by simp
next
  case (Cons kv data)
  obtain k v where kv: "kv = (k, v)" by (cases kv)
  have d: "distinct (set_add us k)"
    using Cons.prems(2) by (simp add: set_add_def)
  from Cons.prems(1) show ?case
    by (auto simp: kv split: sum.splits if_splits intro: Cons.IH [OF _ d] Cons.IH [OF _ Cons.prems(2)])
qed

lemma length_untranslated_of:
  assumes "set (keys data) \<subseteq> set (keys en_us)"
  shows "length (untranslated_of iu en_us lang data) =
           card {k. \<exists>v. (k, v) \<in> set data \<and> map_of en_us k = Some v \<and> \<not> exempted iu lang k}"
proof -
  have "distinct (untranslated_of iu en_us lang data)"
    using collect_untranslated_distinct [OF set_untranslated_of(1) [OF assms]] by simp
  then show ?thesis
    using set_untranslated_of(2) [OF assms, of iu lang] by (metis distinct_card)
qed

lemma untranslated_block_pass:
  "\<forall>(l, d) \<in> set ts. untranslated_of iu en_us l d = [] \<Longrightarrow>
   concat (map (untranslated_block so iu en_us) ts) = []"
  by (induction ts) (auto simp: untranslated_block_def)

lemma collect_untranslated_listing:
  assumes "set (keys data) \<subseteq> set (keys en_us)" "distinct (keys data)"
    "set us \<inter> set (keys data) = {}"
  shows "collect_untranslated iu en_us lang data us =
           Inr (us @ map fst (filter (\<lambda>(key, val). map_of en_us key = Some val
                                         \<and> \<not> exempted iu lang key) data))"
  using assms
proof (induction data arbitrary: us)
  case Nil
  show ?case by simp
next
  case (Cons kv data)
  obtain k v where kv: "kv = (k, v)" by (cases kv)
  from Cons.prems kv have k: "k \<in> set (keys en_us)"
    and sub: "set (keys data) \<subseteq> set (keys en_us)"
    and dist: "distinct (keys data)" and knew: "k \<notin> set (keys data)" and kus: "k \<notin> set us"
    and disj: "set us \<inter> set (keys data) = {}"
    by (auto simp: keys_def)
  from dict_get_Inr [OF k] obtain r where r: "dict_get en_us k = Inr r" "map_of en_us k = Some r"
    by blast
  show ?case
  proof (cases "v = r \<and> \<not> exempted iu lang k")
    case True
    have "set (set_add us k) \<inter> set (keys data) = {}"
      using disj knew by (auto simp: set_add_def)
    from Cons.IH [OF sub dist this] True r kus show ?thesis
      by (simp add: kv set_add_def)
  next
    case False
    from Cons.IH [OF sub dist disj] False r show ?thesis
      by (auto simp: kv)
  qed
qed

lemma untranslated_of_listing:
  assumes "set (keys data) \<subseteq> set (keys en_us)" "distinct (keys data)"
  shows "untranslated_of iu en_us lang data =
           map fst (filter (\<lambda>(key, val). map_of en_us key = Some val
                                \<and> \<not> exempted iu lang key) data)"
  using collect_untranslated_listing [OF assms, of "[]" iu lang]
  by (simp add: untranslated_of_def)

lemma exempted_iff: "exempted iu lang key \<longleftrightarrow> (\<exists>ks. map_of iu lang = Some ks \<and> key \<in> set ks)"
  by (cases "map_of iu lang") (simp_all add: exempted_def)

lemma untranslated_block_literal:
  assumes "set (keys data) \<subseteq> set (keys en_us)" "distinct (keys data)"
  shows "untranslated_block set_iter iu en_us (lang, data) =
    (let offenders = map fst (filter (\<lambda>(key, val). map_of en_us key = Some val
                         \<and> \<not> (\<exists>ks. map_of iu lang = Some ks \<and> key \<in> set ks)) data)
     in if offenders = [] then []
        else [[CHR 0xE2, CHR 0x9A, CHR 0xA0] @ '' '' @ lang
                @ ''.json contains strings that are identical to en_us.json (''
                @ str_nat (length offenders) @ '' found):'']
             @ map (\<lambda>key. ''- '' @ key @ '': ''
                            @ (case map_of en_us key of None \<Rightarrow> [] | Some v \<Rightarrow> v))
                 (set_iter offenders)
             @ [CHR 0x0A # ''If this is intentional, add the affected key(s) to intentionally_untranslated.json:'',
                ''```json'',
                ''  '' @ [CHR 0x22] @ lang @ [CHR 0x22] @ '': ['']
             @ map (\<lambda>key. ''    '' @ [CHR 0x22] @ key @ [CHR 0x22]) (set_iter offenders)
             @ [''  ]'', ''```''])"
proof -
  have l: "untranslated_line en_us = (\<lambda>key. ''- '' @ key @ '': ''
                            @ (case map_of en_us key of None \<Rightarrow> [] | Some v \<Rightarrow> v))"
    by (rule ext) (simp add: untranslated_line_def)
  show ?thesis
    unfolding untranslated_block_def prod.case untranslated_of_listing [OF assms] exempted_iff l
    by (simp add: Let_def untranslated_header_def untranslated_json_def untranslated_hint_def
        warning_sign_def)
qed

text \<open>
  Claim C2. When every key of every language is a key of the reference table (and the
  table of a language, a dict, has no key twice), the untranslated-strings check returns
  normally exactly when every entry of every language
  differs from the reference value of its key or its language and key are in the exemption
  table; its report is then the single confirmation line. Otherwise it raises the exception
  "Found untranslated strings", and by then the report holds, for every language with an
  offending entry and in the order of the languages, the line that names the language,
  one line with key and shared value for each offending key, and the suggested exemption
  entry with the same keys.
\<close>

theorem check_untranslated_strings_correct:
  assumes "set_iter_ok set_iter"
    and "\<forall>(lang, data) \<in> set translations. fst ` set data \<subseteq> fst ` set en_us"
    and "\<forall>(lang, data) \<in> set translations. distinct (map fst data)"
  shows "check_untranslated_strings set_iter (Inr iu) en_us translations =
     (if \<forall>(lang, data) \<in> set translations. \<forall>(key, val) \<in> set data.
            map_of en_us key \<noteq> Some val \<or> (\<exists>ks. map_of iu lang = Some ks \<and> key \<in> set ks)
      then ([[CHR 0xE2, CHR 0x9C, CHR 0x85] @ '' No accidentally untranslated strings found''],
            Inr ())
      else (concat (map (\<lambda>(lang, data).
              (let offenders = map fst (filter (\<lambda>(key, val). map_of en_us key = Some val
                                  \<and> \<not> (\<exists>ks. map_of iu lang = Some ks \<and> key \<in> set ks)) data)
               in if offenders = [] then []
                  else [[CHR 0xE2, CHR 0x9A, CHR 0xA0] @ '' '' @ lang
                          @ ''.json contains strings that are identical to en_us.json (''
                          @ str_nat (length offenders) @ '' found):'']
                       @ map (\<lambda>key. ''- '' @ key @ '': ''
                                      @ (case map_of en_us key of None \<Rightarrow> [] | Some v \<Rightarrow> v))
                           (set_iter offenders)
                       @ [CHR 0x0A # ''If this is intentional, add the affected key(s) to intentionally_untranslated.json:'',
                          ''```json'',
                          ''  '' @ [CHR 0x22] @ lang @ [CHR 0x22] @ '': ['']
                       @ map (\<lambda>key. ''    '' @ [CHR 0x22] @ key @ [CHR 0x22]) (set_iter offenders)
                       @ [''  ]'', ''```''])) translations),
            Inl (Exception ''Found untranslated strings in one or more translation files'')))"
proof -
  let ?B = "\<lambda>(lang, data).
              (let offenders = map fst (filter (\<lambda>(key, val). map_of en_us key = Some val
                                  \<and> \<not> (\<exists>ks. map_of iu lang = Some ks \<and> key \<in> set ks)) data)
               in if offenders = [] then []
                  else [[CHR 0xE2, CHR 0x9A, CHR 0xA0] @ '' '' @ lang
                          @ ''.json contains strings that are identical to en_us.json (''
                          @ str_nat (length offenders) @ '' found):'']
                       @ map (\<lambda>key. ''- '' @ key @ '': ''
                                      @ (case map_of en_us key of None \<Rightarrow> [] | Some v \<Rightarrow> v))
                           (set_iter offenders)
                       @ [CHR 0x0A # ''If this is intentional, add the affected key(s) to intentionally_untranslated.json:'',
                          ''```json'',
                          ''  '' @ [CHR 0x22] @ lang @ [CHR 0x22] @ '': ['']
                       @ map (\<lambda>key. ''    '' @ [CHR 0x22] @ key @ [CHR 0x22]) (set_iter offenders)
                       @ [''  ]'', ''```''])"
  let ?pass = "\<forall>(lang, data) \<in> set translations. \<forall>(key, val) \<in> set data.
            map_of en_us key \<noteq> Some val \<or> (\<exists>ks. map_of iu lang = Some ks \<and> key \<in> set ks)"
  have sub: "\<forall>(l, d) \<in> set translations. set (keys d) \<subseteq> set (keys en_us)"
    using assms(2) by (simp add: keys_def)
  have each: "set (keys d) \<subseteq> set (keys en_us)" "distinct (keys d)"
    if "(l, d) \<in> set translations" for l d
  proof -
    from that assms(2) have "fst ` set d \<subseteq> fst ` set en_us" by blast
    then show "set (keys d) \<subseteq> set (keys en_us)" by (simp add: keys_def)
    from that assms(3) have "distinct (map fst d)" by blast
    then show "distinct (keys d)" by (simp add: keys_def)
  qed
  have blocks: "map (untranslated_block set_iter iu en_us) translations = map ?B translations"
  proof (rule map_cong [OF refl])
    fix t assume t: "t \<in> set translations"
    obtain l d where ld: "t = (l, d)" by (cases t)
    from t ld have "(l, d) \<in> set translations" by simp
    from untranslated_block_literal [OF each [OF this], of set_iter iu l]
    show "untranslated_block set_iter iu en_us t = ?B t"
      by (simp only: ld prod.case)
  qed
  have none: "untranslated_of iu en_us l d = []
                \<longleftrightarrow> (\<forall>(key, val) \<in> set d. map_of en_us key \<noteq> Some val
                       \<or> (\<exists>ks. map_of iu l = Some ks \<and> key \<in> set ks))"
    if "(l, d) \<in> set translations" for l d
    unfolding untranslated_of_listing [OF each [OF that]] exempted_iff
    by (auto simp: filter_empty_conv)
  have pass_iff: "(\<exists>(l, d) \<in> set translations. untranslated_of iu en_us l d \<noteq> []) \<longleftrightarrow> \<not> ?pass"
    using none by blast
  note eq = check_untranslated_strings_eq [OF assms(1) sub, of iu]
  show ?thesis
  proof (cases ?pass)
    case True
    then have no: "\<not> (\<exists>(l, d) \<in> set translations. untranslated_of iu en_us l d \<noteq> [])"
      using pass_iff by simp
    then have "\<forall>(l, d) \<in> set translations. untranslated_of iu en_us l d = []"
      by blast
    from untranslated_block_pass [OF this]
    have "check_untranslated_strings set_iter (Inr iu) en_us translations
            = ([untranslated_ok], Inr ())"
      using no by (simp add: eq)
    then show ?thesis
      using True by (simp add: untranslated_ok_def check_mark_def)
  next
    case False
    then have "\<exists>(l, d) \<in> set translations. untranslated_of iu en_us l d \<noteq> []"
      using pass_iff by simp
    then have "check_untranslated_strings set_iter (Inr iu) en_us translations
            = (concat (map (untranslated_block set_iter iu en_us) translations),
               Inl untranslated_error)"
      by (simp only: eq if_True)
    then show ?thesis
      unfolding blocks untranslated_error_def using False by (simp only: if_False)
  qed
qed

theorem check_untranslated_strings_correct_witness:
  "set_iter_ok rev
   \<and> fst ` set [(''a'', ''X''), (''b'', ''Y''), (''c'', ''Q'')]
        \<subseteq> fst ` set [(''a'', ''X''), (''b'', ''Y''), (''c'', ''Z'')]
   \<and> distinct (map fst [(''a'', ''X''), (''b'', ''Y''), (''c'', ''Q'')])
   \<and> check_untranslated_strings rev (Inr [(''fr'', [''b''])])
        [(''a'', ''X''), (''b'', ''Y''), (''c'', ''Z'')]
        [(''fr'', [(''a'', ''X''), (''b'', ''Y''), (''c'', ''Q'')]),
         (''de'', [(''a'', ''X''), (''b'', ''Y''), (''c'', ''Q'')])]
     = ([[CHR 0xE2, CHR 0x9A, CHR 0xA0]
           @ '' fr.json contains strings that are identical to en_us.json (1 found):'',
         ''- a: X'',
         CHR 0x0A # ''If this is intentional, add the affected key(s) to intentionally_untranslated.json:'',
         ''```json'', ''  '' @ [CHR 0x22] @ ''fr'' @ [CHR 0x22] @ '': ['',
         ''    '' @ [CHR 0x22] @ ''a'' @ [CHR 0x22],
         ''  ]'', ''```'',
         [CHR 0xE2, CHR 0x9A, CHR 0xA0]
           @ '' de.json contains strings that are identical to en_us.json (2 found):'',
         ''- b: Y'', ''- a: X'',
         CHR 0x0A # ''If this is intentional, add the affected key(s) to intentionally_untranslated.json:'',
         ''```json'', ''  '' @ [CHR 0x22] @ ''de'' @ [CHR 0x22] @ '': ['',
         ''    '' @ [CHR 0x22] @ ''b'' @ [CHR 0x22],
         ''    '' @ [CHR 0x22] @ ''a'' @ [CHR 0x22],
         ''  ]'', ''```''],
        Inl (Exception ''Found untranslated strings in one or more translation files''))
   \<and> check_untranslated_strings rev (Inr [(''fr'', [''b'', ''a''])])
        [(''a'', ''X''), (''b'', ''Y''), (''c'', ''Z'')]
        [(''fr'', [(''a'', ''X''), (''b'', ''Y''), (''c'', ''Q'')])]
     = ([[CHR 0xE2, CHR 0x9C, CHR 0x85] @ '' No accidentally untranslated strings found''],
        Inr ())"
proof -
  have ok: "set_iter_ok rev"
    by (simp add: set_iter_ok_def)
  have sub1: "fst ` set [(''a'', ''X''), (''b'', ''Y''), (''c'', ''Q'')]
        \<subseteq> fst ` set [(''a'', ''X''), (''b'', ''Y''), (''c'', ''Z'')]"
    and d1: "distinct (map fst [(''a'', ''X''), (''b'', ''Y''), (''c'', ''Q'')])"
    by simp_all
  have sub: "\<forall>(lang, data) \<in> set [(''fr'', [(''a'', ''X''), (''b'', ''Y''), (''c'', ''Q'')]),
         (''de'', [(''a'', ''X''), (''b'', ''Y''), (''c'', ''Q'')])].
         fst ` set data \<subseteq> fst ` set [(''a'', ''X''), (''b'', ''Y''), (''c'', ''Z'')]"
    and dist: "\<forall>(lang, data) \<in> set [(''fr'', [(''a'', ''X''), (''b'', ''Y''), (''c'', ''Q'')]),
         (''de'', [(''a'', ''X''), (''b'', ''Y''), (''c'', ''Q'')])]. distinct (map fst data)"
    and sub': "\<forall>(lang, data) \<in> set [(''fr'', [(''a'', ''X''), (''b'', ''Y''), (''c'', ''Q'')])].
         fst ` set data \<subseteq> fst ` set [(''a'', ''X''), (''b'', ''Y''), (''c'', ''Z'')]"
    and dist': "\<forall>(lang, data) \<in> set [(''fr'', [(''a'', ''X''), (''b'', ''Y''), (''c'', ''Q'')])].
         distinct (map fst data)"
    by simp_all
  have ex: "(\<exists>ks. map_of iu l = Some ks \<and> k \<in> set ks)
              = (case map_of iu l of None \<Rightarrow> False | Some ks \<Rightarrow> k \<in> set ks)"
    for iu :: exemptions and l k
    by (cases "map_of iu l") simp_all
  note a = check_untranslated_strings_correct [OF ok sub dist, of "[(''fr'', [''b''])]"]
  note b = check_untranslated_strings_correct [OF ok sub' dist', of "[(''fr'', [''b'', ''a''])]"]
  have a': "check_untranslated_strings rev (Inr [(''fr'', [''b''])])
        [(''a'', ''X''), (''b'', ''Y''), (''c'', ''Z'')]
        [(''fr'', [(''a'', ''X''), (''b'', ''Y''), (''c'', ''Q'')]),
         (''de'', [(''a'', ''X''), (''b'', ''Y''), (''c'', ''Q'')])]
     = ([[CHR 0xE2, CHR 0x9A, CHR 0xA0]
           @ '' fr.json contains strings that are identical to en_us.json (1 found):'',
         ''- a: X'',
         CHR 0x0A # ''If this is intentional, add the affected key(s) to intentionally_untranslated.json:'',
         ''```json'', ''  '' @ [CHR 0x22] @ ''fr'' @ [CHR 0x22] @ '': ['',
         ''    '' @ [CHR 0x22] @ ''a'' @ [CHR 0x22],
         ''  ]'', ''```'',
         [CHR 0xE2, CHR 0x9A, CHR 0xA0]
           @ '' de.json contains strings that are identical to en_us.json (2 found):'',
         ''- b: Y'', ''- a: X'',
         CHR 0x0A # ''If this is intentional, add the affected key(s) to intentionally_untranslated.json:'',
         ''```json'', ''  '' @ [CHR 0x22] @ ''de'' @ [CHR 0x22] @ '': ['',
         ''    '' @ [CHR 0x22] @ ''b'' @ [CHR 0x22],
         ''    '' @ [CHR 0x22] @ ''a'' @ [CHR 0x22],
         ''  ]'', ''```''],
        Inl (Exception ''Found untranslated strings in one or more translation files''))"
    unfolding a ex by code_simp
  have b': "check_untranslated_strings rev (Inr [(''fr'', [''b'', ''a''])])
        [(''a'', ''X''), (''b'', ''Y''), (''c'', ''Z'')]
        [(''fr'', [(''a'', ''X''), (''b'', ''Y''), (''c'', ''Q'')])]
     = ([[CHR 0xE2, CHR 0x9C, CHR 0x85] @ '' No accidentally untranslated strings found''],
        Inr ())"
    unfolding b ex by code_simp
  from ok sub1 d1 a' b' show ?thesis by (intro conjI)
qed

section \<open>The key-order check\<close>

lemma order_loop_Inr:
  "order_loop en_us ts = Inr () \<longleftrightarrow>
     (\<forall>(lang, data) \<in> set ts.
        filter (\<lambda>key. key \<in> set (keys data)) (keys en_us)
          = filter (\<lambda>key. key \<in> set (keys en_us)) (keys data))"
proof (induction ts)
  case Nil
  show ?case by simp
next
  case (Cons t ts)
  obtain l d where t: "t = (l, d)" by (cases t)
  show ?case
    by (simp add: t Let_def Cons.IH)
qed

lemma order_loop_Inl:
  "order_loop en_us ts = Inl e \<Longrightarrow>
   \<exists>before lang data after. ts = before @ (lang, data) # after
     \<and> order_loop en_us before = Inr ()
     \<and> filter (\<lambda>key. key \<in> set (keys data)) (keys en_us)
          \<noteq> filter (\<lambda>key. key \<in> set (keys en_us)) (keys data)
     \<and> e = order_error lang"
proof (induction ts)
  case Nil
  then show ?case by simp
next
  case (Cons t ts)
  obtain l d where t: "t = (l, d)" by (cases t)
  show ?case
  proof (cases "filter (\<lambda>key. key \<in> set (keys d)) (keys en_us)
          = filter (\<lambda>key. key \<in> set (keys en_us)) (keys d)")
    case True
    with Cons.prems t have "order_loop en_us ts = Inl e"
      by (simp add: Let_def)
    from Cons.IH [OF this] obtain before lang data after where
      *: "ts = before @ (lang, data) # after" "order_loop en_us before = Inr ()"
      "filter (\<lambda>key. key \<in> set (keys data)) (keys en_us)
          \<noteq> filter (\<lambda>key. key \<in> set (keys en_us)) (keys data)"
      "e = order_error lang"
      by blast
    have "t # ts = (t # before) @ (lang, data) # after"
      using *(1) by simp
    moreover have "order_loop en_us (t # before) = Inr ()"
      using True *(2) by (simp add: t Let_def)
    ultimately show ?thesis
      using *(3,4) by blast
  next
    case False
    with Cons.prems t have "e = order_error l"
      by (simp add: Let_def)
    moreover have "t # ts = [] @ (l, d) # ts"
      by (simp add: t)
    moreover have "order_loop en_us [] = Inr ()"
      by simp
    ultimately show ?thesis
      using False by blast
  qed
qed

lemma check_order_of_strings_cases:
  "(snd (check_order_of_strings en_us translations) = Inr ()
      \<longleftrightarrow> (\<forall>(lang, data) \<in> set translations.
             filter (\<lambda>key. key \<in> set (keys data)) (keys en_us)
               = filter (\<lambda>key. key \<in> set (keys en_us)) (keys data)))
   \<and> (snd (check_order_of_strings en_us translations) = Inr ()
        \<longrightarrow> fst (check_order_of_strings en_us translations) = [order_ok])
   \<and> (snd (check_order_of_strings en_us translations) \<noteq> Inr ()
        \<longrightarrow> (\<exists>before lang data after.
               translations = before @ (lang, data) # after
             \<and> (\<forall>(l, d) \<in> set before.
                    filter (\<lambda>key. key \<in> set (keys d)) (keys en_us)
                      = filter (\<lambda>key. key \<in> set (keys en_us)) (keys d))
             \<and> filter (\<lambda>key. key \<in> set (keys data)) (keys en_us)
                  \<noteq> filter (\<lambda>key. key \<in> set (keys en_us)) (keys data)
             \<and> check_order_of_strings en_us translations = ([], Inl (order_error lang))))"
proof (cases "order_loop en_us translations")
  case (Inl e)
  from order_loop_Inl [OF Inl] obtain before lang data after where
    *: "translations = before @ (lang, data) # after" "order_loop en_us before = Inr ()"
    "filter (\<lambda>key. key \<in> set (keys data)) (keys en_us)
          \<noteq> filter (\<lambda>key. key \<in> set (keys en_us)) (keys data)"
    "e = order_error lang"
    by blast
  have r: "check_order_of_strings en_us translations = ([], Inl (order_error lang))"
    by (simp add: check_order_of_strings_def Inl *(4))
  have "\<not> (\<forall>(lang, data) \<in> set translations.
             filter (\<lambda>key. key \<in> set (keys data)) (keys en_us)
               = filter (\<lambda>key. key \<in> set (keys en_us)) (keys data))"
    using Inl order_loop_Inr [of en_us "translations"] by simp
  moreover have "\<forall>(l, d) \<in> set before.
                    filter (\<lambda>key. key \<in> set (keys d)) (keys en_us)
                      = filter (\<lambda>key. key \<in> set (keys en_us)) (keys d)"
    using *(2) order_loop_Inr [of en_us before] by simp
  ultimately show ?thesis
    using r *(1,3) by (simp only: r snd_conv fst_conv) blast
next
  case (Inr u)
  then have "order_loop en_us translations = Inr ()" by simp
  moreover from this have "\<forall>(lang, data) \<in> set translations.
             filter (\<lambda>key. key \<in> set (keys data)) (keys en_us)
               = filter (\<lambda>key. key \<in> set (keys en_us)) (keys data)"
    using order_loop_Inr [of en_us "translations"] by simp
  ultimately show ?thesis
    by (simp add: check_order_of_strings_def)
qed

text \<open>
  Claim C3. The key-order check returns normally exactly when, for every language, the
  reference keys that the language has, in reference order, are the language's keys that
  the reference has, in the language's order; it then reports the single confirmation
  line. Otherwise it raises at the first language whose order differs, with the message
  that names that language, and reports nothing: the languages after it are not examined.
\<close>

theorem check_order_of_strings_correct:
  "(snd (check_order_of_strings en_us translations) = Inr ()
      \<longleftrightarrow> (\<forall>(lang, data) \<in> set translations.
             filter (\<lambda>key. key \<in> fst ` set data) (map fst en_us)
               = filter (\<lambda>key. key \<in> fst ` set en_us) (map fst data)))
   \<and> (snd (check_order_of_strings en_us translations) = Inr ()
        \<longrightarrow> fst (check_order_of_strings en_us translations)
              = [[CHR 0xE2, CHR 0x9C, CHR 0x85]
                   @ '' The order of strings in each translation file matches en_us.json''])
   \<and> (snd (check_order_of_strings en_us translations) \<noteq> Inr ()
        \<longrightarrow> (\<exists>before lang data after.
               translations = before @ (lang, data) # after
             \<and> (\<forall>(l, d) \<in> set before.
                    filter (\<lambda>key. key \<in> fst ` set d) (map fst en_us)
                      = filter (\<lambda>key. key \<in> fst ` set en_us) (map fst d))
             \<and> filter (\<lambda>key. key \<in> fst ` set data) (map fst en_us)
                  \<noteq> filter (\<lambda>key. key \<in> fst ` set en_us) (map fst data)
             \<and> check_order_of_strings en_us translations
                 = ([], Inl (Exception ([CHR 0xE2, CHR 0x9A, CHR 0xA0]
                                          @ '' The order of strings in '' @ lang
                                          @ ''.json is different from en_us.json'')))))"
  using check_order_of_strings_cases [of en_us "translations"]
  unfolding keys_def order_ok_def order_error_def check_mark_def warning_sign_def set_map
  .

theorem check_order_of_strings_correct_witness:
  "check_order_of_strings [(''a'', ''A''), (''b'', ''B''), (''c'', ''C'')]
       [(''es'', [(''a'', ''2''), (''c'', ''1'')]), (''it'', [(''b'', ''1''), (''a'', ''2'')]),
        (''pt'', [(''c'', ''1''), (''b'', ''2'')])]
     = ([], Inl (Exception ([CHR 0xE2, CHR 0x9A, CHR 0xA0]
                              @ '' The order of strings in it.json is different from en_us.json'')))
   \<and> check_order_of_strings [(''a'', ''A''), (''b'', ''B''), (''c'', ''C'')]
       [(''es'', [(''a'', ''2''), (''c'', ''1'')])]
     = ([[CHR 0xE2, CHR 0x9C, CHR 0x85]
           @ '' The order of strings in each translation file matches en_us.json''], Inr ())"
proof -
  note a = check_order_of_strings_correct [of "[(''a'', ''A''), (''b'', ''B''), (''c'', ''C'')]"
      "[(''es'', [(''a'', ''2''), (''c'', ''1'')]), (''it'', [(''b'', ''1''), (''a'', ''2'')]),
        (''pt'', [(''c'', ''1''), (''b'', ''2'')])]"]
  note b = check_order_of_strings_correct [of "[(''a'', ''A''), (''b'', ''B''), (''c'', ''C'')]"
      "[(''es'', [(''a'', ''2''), (''c'', ''1'')])]"]
  have fails: "snd (check_order_of_strings [(''a'', ''A''), (''b'', ''B''), (''c'', ''C'')]
       [(''es'', [(''a'', ''2''), (''c'', ''1'')]), (''it'', [(''b'', ''1''), (''a'', ''2'')]),
        (''pt'', [(''c'', ''1''), (''b'', ''2'')])]) \<noteq> Inr ()"
    using a [THEN conjunct1] by simp
  from a [THEN conjunct2, THEN conjunct2, THEN mp, OF fails]
  obtain before lang data after where
    split: "[(''es'', [(''a'', ''2''), (''c'', ''1'')]), (''it'', [(''b'', ''1''), (''a'', ''2'')]),
        (''pt'', [(''c'', ''1''), (''b'', ''2'')])] = before @ (lang, data) # after"
    and ok: "\<forall>(l, d) \<in> set before.
               filter (\<lambda>key. key \<in> fst ` set d) (map fst [(''a'', ''A''), (''b'', ''B''), (''c'', ''C'')])
                 = filter (\<lambda>key. key \<in> fst ` set [(''a'', ''A''), (''b'', ''B''), (''c'', ''C'')]) (map fst d)"
    and bad: "filter (\<lambda>key. key \<in> fst ` set data) (map fst [(''a'', ''A''), (''b'', ''B''), (''c'', ''C'')])
                 \<noteq> filter (\<lambda>key. key \<in> fst ` set [(''a'', ''A''), (''b'', ''B''), (''c'', ''C'')]) (map fst data)"
    and res: "check_order_of_strings [(''a'', ''A''), (''b'', ''B''), (''c'', ''C'')]
       [(''es'', [(''a'', ''2''), (''c'', ''1'')]), (''it'', [(''b'', ''1''), (''a'', ''2'')]),
        (''pt'', [(''c'', ''1''), (''b'', ''2'')])]
         = ([], Inl (Exception ([CHR 0xE2, CHR 0x9A, CHR 0xA0]
                                          @ '' The order of strings in '' @ lang
                                          @ ''.json is different from en_us.json'')))"
    by blast
  have "lang = ''it''"
  proof (cases before)
    case Nil
    with split bad show ?thesis by auto
  next
    case (Cons t before')
    show ?thesis
    proof (cases before')
      case Nil
      with Cons split show ?thesis by auto
    next
      case (Cons t' before'')
      with \<open>before = t # before'\<close> split ok show ?thesis
        by (cases before'') auto
    qed
  qed
  with res have 1: "check_order_of_strings [(''a'', ''A''), (''b'', ''B''), (''c'', ''C'')]
       [(''es'', [(''a'', ''2''), (''c'', ''1'')]), (''it'', [(''b'', ''1''), (''a'', ''2'')]),
        (''pt'', [(''c'', ''1''), (''b'', ''2'')])]
     = ([], Inl (Exception ([CHR 0xE2, CHR 0x9A, CHR 0xA0]
                              @ '' The order of strings in it.json is different from en_us.json'')))"
    by simp
  have passes: "snd (check_order_of_strings [(''a'', ''A''), (''b'', ''B''), (''c'', ''C'')]
       [(''es'', [(''a'', ''2''), (''c'', ''1'')])]) = Inr ()"
    using b [THEN conjunct1] by simp
  from b [THEN conjunct2, THEN conjunct1, THEN mp, OF passes] passes
  have 2: "check_order_of_strings [(''a'', ''A''), (''b'', ''B''), (''c'', ''C'')]
       [(''es'', [(''a'', ''2''), (''c'', ''1'')])]
     = ([[CHR 0xE2, CHR 0x9C, CHR 0x85]
           @ '' The order of strings in each translation file matches en_us.json''], Inr ())"
    by (metis prod.collapse)
  from 1 2 show ?thesis by (rule conjI)
qed

section \<open>The known-issues check\<close>

lemma fold_flag:
  assumes "\<And>x f out. step x (f, out) = (f \<or> P x, out @ L x)"
  shows "fold step xs (f, out) = (f \<or> (\<exists>x \<in> set xs. P x), out @ concat (map L xs))"
  by (induction xs arbitrary: f out) (auto simp: assms)

lemma typo_fold:
  "fold (typo_step lang key val) known_typos (f, out) = (f \<or> has_typo val, out @ typo_lines lang key val)"
  unfolding has_typo_def typo_lines_def
  by (rule fold_flag) (auto simp: typo_step_def)

lemma typo_fold_data:
  "fold (\<lambda>(key, val). fold (typo_step lang key val) known_typos) data (f, out) =
     (f \<or> (\<exists>kv \<in> set data. has_typo (snd kv)), out @ typo_block (lang, data))"
proof -
  have "fold (\<lambda>(key, val). fold (typo_step lang key val) known_typos) data (f, out) =
     (f \<or> (\<exists>kv \<in> set data. has_typo (snd kv)),
      out @ concat (map (\<lambda>(key, val). typo_lines lang key val) data))"
    by (rule fold_flag) (auto simp: typo_fold)
  then show ?thesis
    by (simp add: typo_block_def)
qed

lemma typo_fold_all:
  "fold (\<lambda>(lang, data). fold (\<lambda>(key, val). fold (typo_step lang key val) known_typos) data) ts (f, out) =
     (f \<or> (\<exists>t \<in> set ts. \<exists>kv \<in> set (snd t). has_typo (snd kv)), out @ concat (map typo_block ts))"
  by (rule fold_flag) (auto simp: typo_fold_data)

lemma difficult_fold:
  "fold (difficult_step lower) ts (f, out) =
     (f \<or> (\<exists>t \<in> set ts. boatfly_hit lower (snd t) \<or> radar_hit (snd t)),
      out @ concat (map (difficult_block lower) ts))"
  by (rule fold_flag)
    (auto simp: difficult_step_def difficult_block_def boatfly_hit_def radar_hit_def)

lemma check_known_issues_eq:
  "check_known_issues lower en_us ts =
     (if (\<exists>t \<in> set ts. \<exists>kv \<in> set (snd t). has_typo (snd kv))
         \<or> (\<exists>t \<in> set ts. boatfly_hit lower (snd t) \<or> radar_hit (snd t))
      then (concat (map typo_block ts) @ concat (map (difficult_block lower) ts),
            Inl known_issues_error)
      else (concat (map typo_block ts) @ concat (map (difficult_block lower) ts)
              @ [known_issues_ok], Inr ()))"
  by (simp add: check_known_issues_def typo_fold_all difficult_fold)

lemma str_in_iff: "str_in p s \<longleftrightarrow> (\<exists>a b. s = a @ p @ b)"
proof (induction s)
  case Nil
  show ?case by auto
next
  case (Cons c cs)
  show ?case
  proof
    assume "str_in p (c # cs)"
    then consider "prefix p (c # cs)" | "str_in p cs" by auto
    then show "\<exists>a b. c # cs = a @ p @ b"
    proof cases
      case 1
      then obtain b where "c # cs = p @ b" by (auto simp: prefix_def)
      then have "c # cs = [] @ p @ b" by simp
      then show ?thesis by blast
    next
      case 2
      with Cons.IH obtain a b where "cs = a @ p @ b" by blast
      then have "c # cs = (c # a) @ p @ b" by simp
      then show ?thesis by blast
    qed
  next
    assume "\<exists>a b. c # cs = a @ p @ b"
    then obtain a b where ab: "c # cs = a @ p @ b" by blast
    show "str_in p (c # cs)"
    proof (cases a)
      case Nil
      with ab have "prefix p (c # cs)" by (simp add: prefix_def)
      then show ?thesis by simp
    next
      case (Cons x a')
      with ab have "cs = a' @ p @ b" by simp
      with Cons.IH have "str_in p cs" by blast
      then show ?thesis by simp
    qed
  qed
qed











lemma sublist_concat_map: "x \<in> set xs \<Longrightarrow> sublist (f x) (concat (map f xs))"
proof -
  assume "x \<in> set xs"
  then obtain ys zs where "xs = ys @ x # zs"
    by (auto simp: in_set_conv_decomp)
  then have "concat (map f xs) = concat (map f ys) @ f x @ concat (map f zs)"
    by simp
  then show ?thesis
    by (simp only: sublist_appendI)
qed

lemma typo_lines_sublist:
  assumes "(typo, correct) \<in> set known_typos" "str_in typo val"
  shows "sublist [typo_header lang key correct typo, ''```json'', json_entry key val, ''```'']
           (typo_lines lang key val)"
proof -
  let ?g = "\<lambda>(typo, correct).
              if str_in typo val
              then [typo_header lang key correct typo, ''```json'', json_entry key val, ''```'']
              else []"
  have "sublist (?g (typo, correct)) (concat (map ?g known_typos))"
    using assms(1) by (rule sublist_concat_map)
  then show ?thesis
    using assms(2) by (simp only: typo_lines_def prod.case if_True)
qed

lemma typo_report_sublist:
  assumes "(lang, data) \<in> set ts" "(key, val) \<in> set data"
    "(typo, correct) \<in> set known_typos" "str_in typo val"
  shows "sublist [typo_header lang key correct typo, ''```json'', json_entry key val, ''```'']
           (concat (map typo_block ts) @ rest)"
proof -
  note typo_lines_sublist [OF assms(3,4), of lang key]
  also have "sublist (typo_lines lang key val) (typo_block (lang, data))"
    using sublist_concat_map [OF assms(2), of "\<lambda>(key, val). typo_lines lang key val"]
    by (simp only: typo_block_def prod.case)
  also have "sublist (typo_block (lang, data)) (concat (map typo_block ts))"
    using assms(1) by (rule sublist_concat_map)
  also have "sublist (concat (map typo_block ts)) (concat (map typo_block ts) @ rest)"
    by (rule sublist_append_rightI)
  finally show ?thesis .
qed

text \<open>
  Claim C8. The table of known typos has exactly 8 pairs, one of them
  LegitKillaura (typo) with KillauraLegit (correct). Whenever the typo of a pair occurs
  anywhere in a value of a language, the known-issues check raises, and its report holds,
  one after the other, the line that names the language, the key, the correct and the
  incorrect word, the opening of the code fence, the line with the key and the value, and
  the closing of the fence. On the value "Has LegitKillaura" the report is exactly these
  four lines.
\<close>

theorem known_typos_rule:
  "length known_typos = 8
   \<and> (''LegitKillaura'', ''KillauraLegit'') \<in> set known_typos
   \<and> (\<forall>(lang, data) \<in> set translations. \<forall>(key, val) \<in> set data.
        \<forall>(typo, correct) \<in> set known_typos.
          (\<exists>a b. val = a @ typo @ b) \<longrightarrow>
            snd (check_known_issues lower en_us translations)
              = Inl (Exception ''Found known issues in one or more translation files'')
            \<and> (\<exists>before after. fst (check_known_issues lower en_us translations)
                  = before
                    @ [[CHR 0xE2, CHR 0x9A, CHR 0xA0] @ '' In '' @ lang @ ''.json string '' @ key
                         @ '', the word '' @ [CHR 0x27] @ correct @ [CHR 0x27]
                         @ '' is incorrectly translated as '' @ [CHR 0x27] @ typo @ [CHR 0x27]
                         @ '':'',
                       ''```json'',
                       ''  '' @ [CHR 0x22] @ key @ [CHR 0x22] @ '': '' @ [CHR 0x22] @ val
                         @ [CHR 0x22],
                       ''```'']
                    @ after))
   \<and> check_known_issues lower en_us [(''de'', [(''key'', ''Has LegitKillaura'')])]
      = ([[CHR 0xE2, CHR 0x9A, CHR 0xA0] @ '' In de.json string key, the word ''
            @ [CHR 0x27] @ ''KillauraLegit'' @ [CHR 0x27] @ '' is incorrectly translated as ''
            @ [CHR 0x27] @ ''LegitKillaura'' @ [CHR 0x27] @ '':'',
          ''```json'',
          ''  '' @ [CHR 0x22] @ ''key'' @ [CHR 0x22] @ '': '' @ [CHR 0x22] @ ''Has LegitKillaura''
            @ [CHR 0x22],
          ''```''],
         Inl (Exception ''Found known issues in one or more translation files''))"
proof -
  let ?out = "concat (map typo_block translations)
                @ concat (map (difficult_block lower) translations)"
  have flagged: "snd (check_known_issues lower en_us translations)
              = Inl (Exception ''Found known issues in one or more translation files'')
            \<and> (\<exists>before after. fst (check_known_issues lower en_us translations)
                  = before
                    @ [[CHR 0xE2, CHR 0x9A, CHR 0xA0] @ '' In '' @ lang @ ''.json string '' @ key
                         @ '', the word '' @ [CHR 0x27] @ correct @ [CHR 0x27]
                         @ '' is incorrectly translated as '' @ [CHR 0x27] @ typo @ [CHR 0x27]
                         @ '':'',
                       ''```json'',
                       ''  '' @ [CHR 0x22] @ key @ [CHR 0x22] @ '': '' @ [CHR 0x22] @ val
                         @ [CHR 0x22],
                       ''```'']
                    @ after)"
    if "(lang, data) \<in> set translations" "(key, val) \<in> set data"
      "(typo, correct) \<in> set known_typos" "val = a @ typo @ b"
    for lang data key val typo correct a b
  proof -
    have s: "str_in typo val"
      using that(4) str_in_iff by blast
    then have h: "has_typo val"
      using that(3) by (auto simp: has_typo_def)
    then have ex: "\<exists>t \<in> set translations. \<exists>kv \<in> set (snd t). has_typo (snd kv)"
      using that(1,2) by force
    then have r: "check_known_issues lower en_us translations = (?out, Inl known_issues_error)"
      by (simp add: check_known_issues_eq)
    from typo_report_sublist [OF that(1,2,3) s, of "concat (map (difficult_block lower) translations)"]
    obtain before after where
      "?out = before @ [typo_header lang key correct typo, ''```json'', json_entry key val, ''```'']
                @ after"
      unfolding sublist_def by blast
    then have "fst (check_known_issues lower en_us translations)
                 = before @ [typo_header lang key correct typo, ''```json'', json_entry key val, ''```'']
                     @ after"
      by (simp only: r fst_conv)
    then have "\<exists>before after. fst (check_known_issues lower en_us translations)
                 = before @ [typo_header lang key correct typo, ''```json'', json_entry key val, ''```'']
                     @ after"
      by blast
    moreover have "snd (check_known_issues lower en_us translations) = Inl known_issues_error"
      by (simp only: r snd_conv)
    ultimately show ?thesis
      unfolding typo_header_def json_entry_def known_issues_error_def warning_sign_def
      by (rule conjI [rotated])
  qed
  have 1: "length known_typos = 8"
    by (simp add: known_typos_def)
  have 2: "(''LegitKillaura'', ''KillauraLegit'') \<in> set known_typos"
    by (simp add: known_typos_def)
  have 3: "\<forall>(lang, data) \<in> set translations. \<forall>(key, val) \<in> set data.
        \<forall>(typo, correct) \<in> set known_typos.
          (\<exists>a b. val = a @ typo @ b) \<longrightarrow>
            snd (check_known_issues lower en_us translations)
              = Inl (Exception ''Found known issues in one or more translation files'')
            \<and> (\<exists>before after. fst (check_known_issues lower en_us translations)
                  = before
                    @ [[CHR 0xE2, CHR 0x9A, CHR 0xA0] @ '' In '' @ lang @ ''.json string '' @ key
                         @ '', the word '' @ [CHR 0x27] @ correct @ [CHR 0x27]
                         @ '' is incorrectly translated as '' @ [CHR 0x27] @ typo @ [CHR 0x27]
                         @ '':'',
                       ''```json'',
                       ''  '' @ [CHR 0x22] @ key @ [CHR 0x22] @ '': '' @ [CHR 0x22] @ val
                         @ [CHR 0x22],
                       ''```'']
                    @ after)"
  proof (intro ballI, clarify)
    fix lang data key val typo correct a b
    assume "(lang, data) \<in> set translations" "(key, a @ typo @ b) \<in> set data"
      "(typo, correct) \<in> set known_typos"
    then show "snd (check_known_issues lower en_us translations)
              = Inl (Exception ''Found known issues in one or more translation files'')
            \<and> (\<exists>before after. fst (check_known_issues lower en_us translations)
                  = before
                    @ [[CHR 0xE2, CHR 0x9A, CHR 0xA0] @ '' In '' @ lang @ ''.json string '' @ key
                         @ '', the word '' @ [CHR 0x27] @ correct @ [CHR 0x27]
                         @ '' is incorrectly translated as '' @ [CHR 0x27] @ typo @ [CHR 0x27]
                         @ '':'',
                       ''```json'',
                       ''  '' @ [CHR 0x22] @ key @ [CHR 0x22] @ '': '' @ [CHR 0x22] @ (a @ typo @ b)
                         @ [CHR 0x22],
                       ''```'']
                    @ after)"
      by (rule flagged) simp
  qed
  have 4: "check_known_issues lower en_us [(''de'', [(''key'', ''Has LegitKillaura'')])]
      = ([[CHR 0xE2, CHR 0x9A, CHR 0xA0] @ '' In de.json string key, the word ''
            @ [CHR 0x27] @ ''KillauraLegit'' @ [CHR 0x27] @ '' is incorrectly translated as ''
            @ [CHR 0x27] @ ''LegitKillaura'' @ [CHR 0x27] @ '':'',
          ''```json'',
          ''  '' @ [CHR 0x22] @ ''key'' @ [CHR 0x22] @ '': '' @ [CHR 0x22] @ ''Has LegitKillaura''
            @ [CHR 0x22],
          ''```''],
         Inl (Exception ''Found known issues in one or more translation files''))"
    by (simp add: check_known_issues_def difficult_step_def typo_step_def known_typos_def
        radar_key_def boatfly_key_def typo_header_def json_entry_def warning_sign_def
        known_issues_error_def)
  from 1 2 3 4 show ?thesis by (intro conjI)
qed

theorem known_typos_rule_witness:
  "(''Has LegitKillaura'' = ''Has '' @ ''LegitKillaura'' @ '''')
   \<and> snd (check_known_issues (\<lambda>s. s) [(''key'', ''Has Killaura'')]
            [(''fr'', [(''key'', ''A Killaura'')]), (''de'', [(''key'', ''Has LegitKillaura'')])])
       = Inl (Exception ''Found known issues in one or more translation files'')
   \<and> (\<exists>before after.
         fst (check_known_issues (\<lambda>s. s) [(''key'', ''Has Killaura'')]
                [(''fr'', [(''key'', ''A Killaura'')]), (''de'', [(''key'', ''Has LegitKillaura'')])])
           = before
             @ [[CHR 0xE2, CHR 0x9A, CHR 0xA0] @ '' In '' @ ''de'' @ ''.json string '' @ ''key''
                  @ '', the word '' @ [CHR 0x27] @ ''KillauraLegit'' @ [CHR 0x27]
                  @ '' is incorrectly translated as '' @ [CHR 0x27] @ ''LegitKillaura'' @ [CHR 0x27]
                  @ '':'',
                ''```json'',
                ''  '' @ [CHR 0x22] @ ''key'' @ [CHR 0x22] @ '': '' @ [CHR 0x22]
                  @ ''Has LegitKillaura'' @ [CHR 0x22],
                ''```'']
             @ after)"
proof -
  note rule = known_typos_rule [of
      "[(''fr'', [(''key'', ''A Killaura'')]), (''de'', [(''key'', ''Has LegitKillaura'')])]"
      "\<lambda>s. s" "[(''key'', ''Has Killaura'')]"]
  note pair = rule [THEN conjunct2, THEN conjunct1]
  note all = rule [THEN conjunct2, THEN conjunct2, THEN conjunct1]
  have m1: "(''de'', [(''key'', ''Has LegitKillaura'')])
              \<in> set [(''fr'', [(''key'', ''A Killaura'')]), (''de'', [(''key'', ''Has LegitKillaura'')])]"
    and m2: "(''key'', ''Has LegitKillaura'') \<in> set [(''key'', ''Has LegitKillaura'')]"
    by simp_all
  have occ: "''Has LegitKillaura'' = ''Has '' @ ''LegitKillaura'' @ ''''"
    by simp
  then have ex: "\<exists>a b. ''Has LegitKillaura'' = a @ ''LegitKillaura'' @ b"
    by (intro exI)
  note s1 = bspec [OF all m1, unfolded prod.case]
  note s2 = bspec [OF s1 m2, unfolded prod.case]
  note s3 = bspec [OF s2 pair, unfolded prod.case]
  note res = mp [OF s3 ex]
  from occ res show ?thesis
    by (rule conjI)
qed



section \<open>The driver and the unguarded lookup\<close>

lemma and_then_Inl: "snd a = Inl e \<Longrightarrow> and_then a b = (fst a, Inl e)"
  by (simp add: and_then_def)

lemma and_then_Inr: "snd a = Inr u \<Longrightarrow> and_then a b = (fst a @ fst b, snd b)"
  by (simp add: and_then_def)

lemma and_then_failed:
  "snd b = Inl e \<Longrightarrow> and_then a (and_then b c) = and_then a b"
  by (cases "snd a") (simp_all add: and_then_def)

lemma check_extra_keys_fails:
  assumes "\<exists>(lang, data) \<in> set translations. \<not> set (keys data) \<subseteq> set (keys en_us)"
  shows "snd (check_extra_keys diff_iter en_us translations) = Inl extra_keys_error"
proof -
  from assms have "\<not> (\<forall>(l, d) \<in> set translations. set (keys d) \<subseteq> set (keys en_us))"
    by blast
  then show ?thesis
    by (simp only: check_extra_keys_eq if_False snd_conv)
qed

text \<open>
  Claim C10. The lookup \<^verbatim>\<open>en_us[key]\<close> of the untranslated-strings check is unguarded:
  whenever some language has a key that the reference table lacks, the check called on its
  own raises \<^verbatim>\<open>KeyError\<close>, not its own exception. In \<open>main\<close> that lookup is never
  reached with such a key: the extra-keys check raises on the same input, and the run of
  \<open>main\<close> ends with the statistics and the extra-keys check.
\<close>

theorem untranslated_lookup_unguarded:
  assumes "\<exists>(lang, data) \<in> set translations. \<not> set (keys data) \<subseteq> set (keys en_us)"
  shows "(\<exists>key. key \<notin> set (keys en_us)
            \<and> snd (check_untranslated_strings set_iter (Inr iu) en_us translations)
                = Inl (KeyError key))
       \<and> snd (check_extra_keys diff_iter en_us translations) = Inl extra_keys_error
       \<and> (load dir = Inr (en_us, translations) \<longrightarrow>
            main diff_iter set_iter pct lower iu_file dir wurst_mode =
              and_then (show_translation_stats pct en_us translations)
                (check_extra_keys diff_iter en_us translations))"
proof -
  from untranslated_loop_missing [OF assms, of set_iter iu False "[]"]
  obtain out' k where k: "k \<notin> set (keys en_us)"
    and l: "untranslated_loop set_iter iu en_us translations False [] = (out', Inl (KeyError k))"
    by blast
  have 1: "\<exists>key. key \<notin> set (keys en_us)
            \<and> snd (check_untranslated_strings set_iter (Inr iu) en_us translations)
                = Inl (KeyError key)"
    using k by (auto simp: check_untranslated_strings_def l)
  note 2 = check_extra_keys_fails [OF assms, of diff_iter]
  have 3: "main diff_iter set_iter pct lower iu_file dir wurst_mode =
              and_then (show_translation_stats pct en_us translations)
                (check_extra_keys diff_iter en_us translations)"
    if "load dir = Inr (en_us, translations)"
    using that by (simp add: main_def and_then_failed [OF 2])
  from 1 2 3 show ?thesis by blast
qed

theorem untranslated_lookup_unguarded_witness:
  "(\<exists>(lang, data) \<in> set [(''de'', [(''c'', ''W'')])]. \<not> set (keys data) \<subseteq> set (keys [(''a'', ''X'')]))
   \<and> (\<exists>key. snd (check_untranslated_strings (\<lambda>xs. xs) (Inr []) [(''a'', ''X'')]
                   [(''de'', [(''c'', ''W'')])]) = Inl (KeyError key))
   \<and> snd (main diff_iter_listed (\<lambda>xs. xs) (\<lambda>n m. ''0.00'') (\<lambda>s. s) (Inr [])
             \<lparr>en_us_file = Inr [(''a'', ''X'')],
               rglob_json = [\<lparr>path_name = ''de.json'', path_is_file = True,
                               path_read = Inr [(''c'', ''W'')]\<rparr>]\<rparr> False)
       = Inl extra_keys_error"
proof -
  have bad: "\<exists>(lang, data) \<in> set [(''de'', [(''c'', ''W'')])].
               \<not> set (keys data) \<subseteq> set (keys [(''a'', ''X'')])"
    by (simp add: keys_def)
  have ld: "load \<lparr>en_us_file = Inr [(''a'', ''X'')],
               rglob_json = [\<lparr>path_name = ''de.json'', path_is_file = True,
                               path_read = Inr [(''c'', ''W'')]\<rparr>]\<rparr>
           = Inr ([(''a'', ''X'')], [(''de'', [(''c'', ''W'')])])"
    by code_simp
  have st: "snd (show_translation_stats (\<lambda>n m. ''0.00'') [(''a'', ''X'')] [(''de'', [(''c'', ''W'')])])
              = Inr ()"
    by (simp add: show_translation_stats_def)
  from untranslated_lookup_unguarded [OF bad, where set_iter = "\<lambda>xs. xs" and iu = "[]"
      and diff_iter = diff_iter_listed and pct = "\<lambda>n m. ''0.00''" and lower = "\<lambda>s. s"
      and iu_file = "Inr []" and wurst_mode = False
      and dir = "\<lparr>en_us_file = Inr [(''a'', ''X'')],
               rglob_json = [\<lparr>path_name = ''de.json'', path_is_file = True,
                               path_read = Inr [(''c'', ''W'')]\<rparr>]\<rparr>"]
  show ?thesis
    using bad ld st by (auto simp: and_then_def)
qed

section \<open>The statistics pass\<close>

lemma stats_loop_nonempty:
  "en_us \<noteq> [] \<Longrightarrow>
   stats_loop pct en_us ts out =
     (out @ map (\<lambda>(lang, data). stats_row lang (length data) (pct (length data) (length en_us))) ts,
      Inr ())"
  by (induction ts arbitrary: out) auto

lemma show_translation_stats_nonempty:
  "en_us \<noteq> [] \<Longrightarrow>
   show_translation_stats pct en_us ts =
     ([''| Language | Translated | % |'', ''| --- | --- | --- |'',
       ''| en_us | '' @ str_nat (length en_us) @ '' | 100.00% |'']
        @ map (\<lambda>(lang, data). stats_row lang (length data) (pct (length data) (length en_us))) ts
        @ [''''],
      Inr ())"
  by (simp add: show_translation_stats_def stats_loop_nonempty)

lemma str_nat_0: "str_nat 0 = ''0''"
  by code_simp

text \<open>
  Claim C4. The statistics pass is claimed to return normally on every input, an empty
  reference table with a language included. On the empty reference table with one language
  it emits the three header lines and then raises \<^verbatim>\<open>ZeroDivisionError\<close>, before
  the line of the language. (For a reference table with entries it returns normally, with
  one line for each language: \<open>show_translation_stats_nonempty\<close>.)
\<close>

theorem show_translation_stats_empty_reference:
  "show_translation_stats pct [] [(''de'', [])] =
     ([''| Language | Translated | % |'', ''| --- | --- | --- |'', ''| en_us | 0 | 100.00% |''],
      Inl ZeroDivisionError)"
  by (simp add: show_translation_stats_def str_nat_0)

section \<open>The loader\<close>

lemma dict_set_subset: "set (dict_set d k v) \<subseteq> insert (k, v) (set d)"
  by (induction d) auto

lemma keys_dict_pop: "set (keys (dict_pop d k)) = set (keys d) - {k}"
  by (auto simp: keys_def dict_pop_def)

lemma load_loop_stripped:
  "load_loop ps ts = Inr ts' \<Longrightarrow>
   \<forall>(l, d) \<in> set ts. set (keys d) \<inter> {''language.name'', ''language.region'', ''language.code''} = {} \<Longrightarrow>
   \<forall>(l, d) \<in> set ts'. set (keys d) \<inter> {''language.name'', ''language.region'', ''language.code''} = {}"
proof (induction ps arbitrary: ts)
  case Nil
  then show ?case by simp
next
  case (Cons p ps)
  show ?case
  proof (cases "path_is_file p \<and> path_name p \<noteq> ''en_us.json''")
    case False
    with Cons.prems(1) have "load_loop ps ts = Inr ts'"
      by auto
    from Cons.IH [OF this Cons.prems(2)] show ?thesis .
  next
    case True
    with Cons.prems(1) obtain data where data: "path_read p = Inr data"
      by (cases "path_read p") auto
    let ?d = "dict_pop (dict_pop (dict_pop data ''language.name'') ''language.region'') ''language.code''"
    let ?ts = "dict_set ts (removesuffix (path_name p) ''.json'') ?d"
    from Cons.prems(1) True data have l: "load_loop ps ?ts = Inr ts'"
      by simp
    have "set (keys ?d) \<inter> {''language.name'', ''language.region'', ''language.code''} = {}"
      by (auto simp: keys_dict_pop)
    with Cons.prems(2) dict_set_subset [of ts "removesuffix (path_name p) ''.json''" ?d]
    have "\<forall>(l, d) \<in> set ?ts. set (keys d) \<inter> {''language.name'', ''language.region'', ''language.code''} = {}"
      by blast
    from Cons.IH [OF l this] show ?thesis .
  qed
qed

lemma load_strips_translations:
  assumes "load dir = Inr (en_us, ts)"
  shows "\<forall>(lang, data) \<in> set ts.
           set (keys data) \<inter> {''language.name'', ''language.region'', ''language.code''} = {}"
proof -
  from assms have "load_loop (sort_key path_name (rglob_json dir)) [] = Inr ts"
    by (auto simp: load_def split: sum.splits)
  from load_loop_stripped [OF this] show ?thesis by simp
qed

lemma load_keeps_reference:
  "load dir = Inr (en_us, ts) \<Longrightarrow> en_us_file dir = Inr en_us"
  by (auto simp: load_def split: sum.splits)

lemma keys_dict_set: "set (keys (dict_set d k v)) = insert k (set (keys d))"
  by (induction d) (auto simp: keys_def)

lemma py_dict_dict_pop: "py_dict d \<Longrightarrow> py_dict (dict_pop d k)"
  by (simp add: py_dict_def dict_pop_def distinct_map_filter)

lemma py_dict_dict_set: "py_dict d \<Longrightarrow> py_dict (dict_set d k v)"
proof (induction d)
  case Nil
  show ?case by (simp add: py_dict_def)
next
  case (Cons kv d)
  then have d: "py_dict d" and kv: "fst kv \<notin> set (keys d)"
    by (simp_all add: py_dict_def keys_def)
  show ?case
  proof (cases "fst kv = k")
    case True
    with Cons.prems show ?thesis by (simp add: py_dict_def)
  next
    case False
    with kv have "fst kv \<notin> set (keys (dict_set d k v))"
      by (simp add: keys_dict_set)
    with Cons.IH [OF d] False show ?thesis
      by (simp add: py_dict_def keys_def)
  qed
qed

lemma load_loop_total:
  "\<forall>p \<in> set ps. path_is_file p \<and> path_name p \<noteq> ''en_us.json'' \<longrightarrow> (\<exists>d. path_read p = Inr d) \<Longrightarrow>
   \<exists>ts'. load_loop ps ts = Inr ts'"
proof (induction ps arbitrary: ts)
  case Nil
  show ?case by simp
next
  case (Cons p ps)
  then have rest: "\<forall>p \<in> set ps. path_is_file p \<and> path_name p \<noteq> ''en_us.json''
                     \<longrightarrow> (\<exists>d. path_read p = Inr d)"
    by simp
  show ?case
  proof (cases "path_is_file p \<and> path_name p \<noteq> ''en_us.json''")
    case True
    with Cons.prems obtain d where "path_read p = Inr d" by auto
    with True Cons.IH [OF rest] show ?thesis by simp
  next
    case False
    with Cons.IH [OF rest] show ?thesis by auto
  qed
qed

text \<open>
  Claim C5, as stated, fails. The three metadata keys are removed inside the loop over the
  language files, which skips \<^verbatim>\<open>en_us.json\<close>; the reference table is used as it was
  read. A reference file with the key \<^verbatim>\<open>language.name\<close> keeps it after loading, while the
  same key is removed from the language file beside it.
\<close>

theorem load_keeps_reference_metadata:
  "load \<lparr>en_us_file = Inr [(''language.name'', ''English''), (''a'', ''X'')],
         rglob_json = [\<lparr>path_name = ''de.json'', path_is_file = True,
                         path_read = Inr [(''language.name'', ''Deutsch''), (''a'', ''Y'')]\<rparr>]\<rparr>
     = Inr ([(''language.name'', ''English''), (''a'', ''X'')], [(''de'', [(''a'', ''Y'')])])
   \<and> ''language.name'' \<in> set (keys [(''language.name'', ''English''), (''a'', ''X'')])"
  by code_simp

text \<open>
  Claim C5, amended. After loading, none of the three metadata keys is a key of the table
  of any language, and the reference table is the one that was read. The absence of the
  keys is no error: loading succeeds whenever the reference file and every language file
  can be read.
\<close>

theorem load_strips_translations_only:
  "(load dir = Inr (en_us, translations) \<longrightarrow>
      en_us_file dir = Inr en_us
      \<and> (\<forall>(lang, data) \<in> set translations.
            set (keys data) \<inter> {''language.name'', ''language.region'', ''language.code''} = {}))
   \<and> (en_us_file dir = Inr en_us
        \<and> (\<forall>p \<in> set (rglob_json dir).
               path_is_file p \<and> path_name p \<noteq> ''en_us.json'' \<longrightarrow> (\<exists>d. path_read p = Inr d))
      \<longrightarrow> (\<exists>ts. load dir = Inr (en_us, ts)))"
proof (intro conjI impI)
  assume "load dir = Inr (en_us, translations)"
  then show "en_us_file dir = Inr en_us"
    by (rule load_keeps_reference)
next
  assume "load dir = Inr (en_us, translations)"
  then show "\<forall>(lang, data) \<in> set translations.
            set (keys data) \<inter> {''language.name'', ''language.region'', ''language.code''} = {}"
    by (rule load_strips_translations)
next
  assume a: "en_us_file dir = Inr en_us
        \<and> (\<forall>p \<in> set (rglob_json dir).
               path_is_file p \<and> path_name p \<noteq> ''en_us.json'' \<longrightarrow> (\<exists>d. path_read p = Inr d))"
  then have "\<forall>p \<in> set (sort_key path_name (rglob_json dir)).
               path_is_file p \<and> path_name p \<noteq> ''en_us.json'' \<longrightarrow> (\<exists>d. path_read p = Inr d)"
    by simp
  from load_loop_total [OF this, of "[]"] obtain ts where
    "load_loop (sort_key path_name (rglob_json dir)) [] = Inr ts"
    by blast
  with a show "\<exists>ts. load dir = Inr (en_us, ts)"
    by (simp add: load_def)
qed

theorem load_strips_translations_only_witness:
  "load \<lparr>en_us_file = Inr [(''language.name'', ''English''), (''a'', ''X'')],
         rglob_json = [\<lparr>path_name = ''de.json'', path_is_file = True,
                         path_read = Inr [(''language.name'', ''Deutsch''), (''a'', ''Y'')]\<rparr>,
                       \<lparr>path_name = ''fr.json'', path_is_file = True,
                         path_read = Inr [(''a'', ''Z'')]\<rparr>]\<rparr>
     = Inr ([(''language.name'', ''English''), (''a'', ''X'')],
            [(''de'', [(''a'', ''Y'')]), (''fr'', [(''a'', ''Z'')])])
   \<and> set (keys [(''a'', ''Y'')]) \<inter> {''language.name'', ''language.region'', ''language.code''} = {}
   \<and> set (keys [(''a'', ''Z'')]) \<inter> {''language.name'', ''language.region'', ''language.code''} = {}"
proof -
  have ld: "load \<lparr>en_us_file = Inr [(''language.name'', ''English''), (''a'', ''X'')],
         rglob_json = [\<lparr>path_name = ''de.json'', path_is_file = True,
                         path_read = Inr [(''language.name'', ''Deutsch''), (''a'', ''Y'')]\<rparr>,
                       \<lparr>path_name = ''fr.json'', path_is_file = True,
                         path_read = Inr [(''a'', ''Z'')]\<rparr>]\<rparr>
     = Inr ([(''language.name'', ''English''), (''a'', ''X'')],
            [(''de'', [(''a'', ''Y'')]), (''fr'', [(''a'', ''Z'')])])"
    by code_simp
  from load_strips_translations_only [THEN conjunct1, THEN mp, OF ld] ld show ?thesis
    by simp
qed

section \<open>Determinism of the report\<close>

lemma sort_key_runs_plain: "\<not> key_line l \<Longrightarrow> sort_key_runs (l # ls) = l # sort_key_runs ls"
  by simp

lemma sort_key_runs_plain_append:
  "\<forall>l \<in> set xs. \<not> key_line l \<Longrightarrow> sort_key_runs (xs @ ys) = xs @ sort_key_runs ys"
  by (induction xs) auto

lemma sort_key_runs_run:
  assumes "\<forall>k \<in> set ks. key_line k" "starts_plain rest"
  shows "sort_key_runs (ks @ rest) = sort ks @ sort_key_runs rest"
proof (cases ks)
  case Nil
  then show ?thesis by simp
next
  case (Cons k ks')
  have tw: "takeWhile key_line (ks' @ rest) = ks'"
    using assms Cons by (cases rest) (auto simp: starts_plain_def takeWhile_append2)
  have dw: "dropWhile key_line (ks' @ rest) = rest"
    using assms Cons by (cases rest) (auto simp: starts_plain_def dropWhile_append2)
  show ?thesis
    using assms(1) Cons by (simp add: tw dw del: sort_key_simps)
qed

lemma sort_mset_eq: "mset xs = mset ys \<Longrightarrow> sort xs = sort (ys :: string list)"
  by (metis mset_sort properties_for_sort sorted_sort)

lemma mset_sort_key_runs: "mset (sort_key_runs ls) = mset ls"
proof (induction ls rule: sort_key_runs.induct)
  case 1
  show ?case by simp
next
  case (2 l ls)
  show ?case
  proof (cases "key_line l")
    case True
    have "mset (takeWhile key_line ls) + mset (dropWhile key_line ls) = mset ls"
      by (metis mset_append takeWhile_dropWhile_id)
    with True 2 show ?thesis
      by (simp del: sort_key_simps)
  next
    case False
    with 2 show ?thesis by simp
  qed
qed

lemma takeWhile_append_plain:
  "starts_plain ys \<Longrightarrow> takeWhile key_line (xs @ ys) = takeWhile key_line xs"
  by (induction xs) (auto simp: starts_plain_def split: list.splits)

lemma dropWhile_append_plain:
  "starts_plain ys \<Longrightarrow> dropWhile key_line (xs @ ys) = dropWhile key_line xs @ ys"
  by (induction xs) (auto simp: starts_plain_def split: list.splits)

lemma sort_key_runs_append:
  "starts_plain ys \<Longrightarrow> sort_key_runs (xs @ ys) = sort_key_runs xs @ sort_key_runs ys"
proof (induction xs rule: sort_key_runs.induct)
  case 1
  show ?case by simp
next
  case (2 l ls)
  show ?case
  proof (cases "key_line l")
    case True
    with 2 show ?thesis
      by (simp add: takeWhile_append_plain dropWhile_append_plain del: sort_key_simps)
  next
    case False
    with 2 show ?thesis by simp
  qed
qed

lemma starts_plain_append:
  "starts_plain xs \<Longrightarrow> starts_plain ys \<Longrightarrow> starts_plain (xs @ ys)"
  by (cases xs) (simp_all add: starts_plain_def)

lemma starts_plain_Nil: "starts_plain []"
  by (simp add: starts_plain_def)

lemma starts_plain_Cons: "\<not> key_line l \<Longrightarrow> starts_plain (l # ls)"
  by (simp add: starts_plain_def)

lemma starts_plain_concat:
  "(\<And>x. x \<in> set xs \<Longrightarrow> starts_plain (f x)) \<Longrightarrow> starts_plain (concat (map f xs))"
  by (induction xs) (simp_all add: starts_plain_Nil starts_plain_append)

lemma same_key_runs_refl: "starts_plain xs \<Longrightarrow> same_key_runs xs xs"
  by (simp add: same_key_runs_def)

lemma same_key_runs_append:
  "same_key_runs xs ys \<Longrightarrow> same_key_runs xs' ys' \<Longrightarrow> same_key_runs (xs @ xs') (ys @ ys')"
  by (simp add: same_key_runs_def sort_key_runs_append starts_plain_append)

lemma same_key_runs_concat:
  "(\<And>t. t \<in> set ts \<Longrightarrow> same_key_runs (f t) (g t)) \<Longrightarrow>
   same_key_runs (concat (map f ts)) (concat (map g ts))"
proof (induction ts)
  case Nil
  show ?case by (simp add: same_key_runs_refl starts_plain_Nil)
next
  case (Cons t ts)
  then show ?case
    by (simp add: same_key_runs_append)
qed

lemma same_key_runs_block:
  assumes "\<not> key_line h" "\<forall>k \<in> set ks. key_line k" "mset ks = mset ks'"
    and "same_key_runs rest rest'"
  shows "same_key_runs (h # ks @ rest) (h # ks' @ rest')"
proof -
  have k': "\<forall>k \<in> set ks'. key_line k"
    using assms(2,3) by (metis mset_eq_setD)
  from assms(4) have r: "sort_key_runs rest = sort_key_runs rest'"
    and p: "starts_plain rest" "starts_plain rest'"
    by (simp_all add: same_key_runs_def)
  have "sort_key_runs (h # ks @ rest) = h # sort ks @ sort_key_runs rest"
    using assms(1) by (simp add: sort_key_runs_run [OF assms(2) p(1)])
  moreover have "sort_key_runs (h # ks' @ rest') = h # sort ks' @ sort_key_runs rest'"
    using assms(1) by (simp add: sort_key_runs_run [OF k' p(2)])
  ultimately show ?thesis
    using r sort_mset_eq [OF assms(3)] assms(1)
    by (simp add: same_key_runs_def starts_plain_def)
qed

lemma and_then_same_key_runs:
  assumes "snd a1 = snd a2" "same_key_runs (fst a1) (fst a2)"
    and "snd b1 = snd b2" "same_key_runs (fst b1) (fst b2)"
  shows "snd (and_then a1 b1) = snd (and_then a2 b2)
       \<and> same_key_runs (fst (and_then a1 b1)) (fst (and_then a2 b2))"
  using assms by (cases "snd a2") (simp_all add: and_then_def same_key_runs_append)

lemma plain_lines [simp]:
  "\<not> key_line (extra_keys_header lang n)" "\<not> key_line extra_keys_ok"
  "\<not> key_line (untranslated_header lang n)" "\<not> key_line untranslated_ok"
  "\<not> key_line untranslated_hint" "\<not> key_line ''```json''" "\<not> key_line ''```''"
  "\<not> key_line (''  '' @ [CHR 0x22] @ lang @ [CHR 0x22] @ '': ['')" "\<not> key_line ''  ]''"
  "\<not> key_line order_ok" "\<not> key_line known_issues_ok"
  "\<not> key_line (typo_header lang key correct typo)"
  "\<not> key_line (boatfly_warning lang)" "\<not> key_line (radar_warning lang)"
  "\<not> key_line ''''"
  by (simp_all add: key_line_def extra_keys_header_def extra_keys_ok_def
      untranslated_header_def untranslated_ok_def untranslated_hint_def order_ok_def
      known_issues_ok_def typo_header_def boatfly_warning_def radar_warning_def
      warning_sign_def check_mark_def)

lemma key_lines [simp]:
  "key_line (''- '' @ key)" "key_line (untranslated_line en_us key)"
  "key_line (''    '' @ [CHR 0x22] @ key @ [CHR 0x22])"
  by (simp_all add: key_line_def untranslated_line_def)

lemma key_lines_map:
  "\<forall>k \<in> set (map (\<lambda>key. ''- '' @ key) xs). key_line k"
  "\<forall>k \<in> set (map (untranslated_line en_us) xs). key_line k"
  "\<forall>k \<in> set (map (\<lambda>key. ''    '' @ [CHR 0x22] @ key @ [CHR 0x22]) xs). key_line k"
  by (simp_all add: key_line_def untranslated_line_def)

lemma mset_diff_iter:
  assumes "diff_iter_ok d1" "diff_iter_ok d2"
  shows "mset (d1 a b) = mset (d2 a b)"
  using assms by (simp add: diff_iter_ok_def set_eq_iff_mset_eq_distinct [symmetric])

lemma mset_set_iter:
  assumes "set_iter_ok s1" "set_iter_ok s2"
  shows "mset (s1 xs) = mset (s2 xs)"
  using assms by (simp add: set_iter_ok_def)

lemma same_key_runs_block0:
  assumes "\<not> key_line h" "\<forall>k \<in> set ks. key_line k" "mset ks = mset ks'"
  shows "same_key_runs (h # ks) (h # ks')"
  using same_key_runs_block [OF assms same_key_runs_refl [OF starts_plain_Nil]] by simp

lemma mset_map_diff_iter:
  assumes "diff_iter_ok d1" "diff_iter_ok d2"
  shows "mset (map f (d1 a b)) = mset (map f (d2 a b))"
  by (simp only: mset_map mset_diff_iter [OF assms])

lemma mset_map_set_iter:
  assumes "set_iter_ok s1" "set_iter_ok s2"
  shows "mset (map f (s1 xs)) = mset (map f (s2 xs))"
  by (simp only: mset_map mset_set_iter [OF assms])

lemma extra_keys_block_same:
  assumes "diff_iter_ok d1" "diff_iter_ok d2"
  shows "same_key_runs (extra_keys_block d1 en_us t) (extra_keys_block d2 en_us t)"
proof -
  obtain l d where t: "t = (l, d)" by (cases t)
  show ?thesis
  proof (cases "set (keys d) \<subseteq> set (keys en_us)")
    case True
    then have "extra_keys_block di en_us (l, d) = []" for di
      by (simp only: extra_keys_block_def prod.case if_True)
    then show ?thesis
      by (simp only: t same_key_runs_refl [OF starts_plain_Nil])
  next
    case False
    then have blk: "extra_keys_block di en_us (l, d) =
        extra_keys_header l (card (set (keys d) - set (keys en_us)))
          # map (\<lambda>key. ''- '' @ key) (di (keys d) (keys en_us))" for di
      by (simp only: extra_keys_block_def prod.case if_False)
    show ?thesis
      unfolding t blk
      by (rule same_key_runs_block0 [OF plain_lines(1) key_lines_map(1)
            mset_map_diff_iter [OF assms]])
  qed
qed

lemma check_extra_keys_same:
  assumes "diff_iter_ok d1" "diff_iter_ok d2"
  shows "snd (check_extra_keys d1 en_us ts) = snd (check_extra_keys d2 en_us ts)"
    and "same_key_runs (fst (check_extra_keys d1 en_us ts)) (fst (check_extra_keys d2 en_us ts))"
proof -
  have b: "same_key_runs (concat (map (extra_keys_block d1 en_us) ts))
             (concat (map (extra_keys_block d2 en_us) ts))"
    by (rule same_key_runs_concat) (rule extra_keys_block_same [OF assms])
  show "snd (check_extra_keys d1 en_us ts) = snd (check_extra_keys d2 en_us ts)"
    by (simp add: check_extra_keys_eq)
  show "same_key_runs (fst (check_extra_keys d1 en_us ts)) (fst (check_extra_keys d2 en_us ts))"
    using b by (simp add: check_extra_keys_eq same_key_runs_append same_key_runs_refl
        starts_plain_Cons)
qed

lemma untranslated_block_same:
  assumes "set_iter_ok s1" "set_iter_ok s2"
  shows "same_key_runs (untranslated_block s1 iu en_us t) (untranslated_block s2 iu en_us t)"
proof -
  obtain l d where t: "t = (l, d)" by (cases t)
  let ?us = "untranslated_of iu en_us l d"
  show ?thesis
  proof (cases "?us = []")
    case True
    then have "untranslated_block s iu en_us (l, d) = []" for s
      by (simp add: untranslated_block_def)
    then show ?thesis
      by (simp only: t same_key_runs_refl [OF starts_plain_Nil])
  next
    case False
    then have blk: "untranslated_block s iu en_us (l, d) =
        untranslated_header l (length ?us)
          # map (untranslated_line en_us) (s ?us)
          @ ([untranslated_hint, ''```json'']
             @ (''  '' @ [CHR 0x22] @ l @ [CHR 0x22] @ '': ['')
               # map (\<lambda>key. ''    '' @ [CHR 0x22] @ key @ [CHR 0x22]) (s ?us)
               @ [''  ]'', ''```''])" for s
      by (simp only: untranslated_block_def prod.case Let_def if_False untranslated_json_def
          append_Cons append_Nil append_assoc)
    have close: "same_key_runs [''  ]'', ''```''] [''  ]'', ''```'']"
      by (rule same_key_runs_refl [OF starts_plain_Cons [OF plain_lines(9)]])
    have pre: "same_key_runs [untranslated_hint, ''```json''] [untranslated_hint, ''```json'']"
      by (rule same_key_runs_refl [OF starts_plain_Cons [OF plain_lines(5)]])
    note j = same_key_runs_block [OF plain_lines(8) key_lines_map(3)
        mset_map_set_iter [OF assms] close]
    note js = same_key_runs_append [OF pre j]
    show ?thesis
      unfolding t blk
      by (rule same_key_runs_block [OF plain_lines(3) key_lines_map(2)
            mset_map_set_iter [OF assms] js])
  qed
qed

lemma check_untranslated_strings_same:
  assumes "set_iter_ok s1" "set_iter_ok s2"
    and sub: "\<forall>(l, d) \<in> set ts. set (keys d) \<subseteq> set (keys en_us)"
  shows "snd (check_untranslated_strings s1 iu_file en_us ts)
           = snd (check_untranslated_strings s2 iu_file en_us ts)"
    and "same_key_runs (fst (check_untranslated_strings s1 iu_file en_us ts))
           (fst (check_untranslated_strings s2 iu_file en_us ts))"
proof -
  show "snd (check_untranslated_strings s1 iu_file en_us ts)
           = snd (check_untranslated_strings s2 iu_file en_us ts)"
  proof (cases iu_file)
    case (Inl e)
    then show ?thesis by (simp add: check_untranslated_strings_def)
  next
    case (Inr iu)
    then show ?thesis
      by (simp add: check_untranslated_strings_eq [OF assms(1) sub]
          check_untranslated_strings_eq [OF assms(2) sub])
  qed
  show "same_key_runs (fst (check_untranslated_strings s1 iu_file en_us ts))
           (fst (check_untranslated_strings s2 iu_file en_us ts))"
  proof (cases iu_file)
    case (Inl e)
    then show ?thesis
      by (simp add: check_untranslated_strings_def same_key_runs_refl starts_plain_Nil)
  next
    case (Inr iu)
    have "same_key_runs (concat (map (untranslated_block s1 iu en_us) ts))
            (concat (map (untranslated_block s2 iu en_us) ts))"
      by (rule same_key_runs_concat) (rule untranslated_block_same [OF assms(1,2)])
    with Inr show ?thesis
      by (simp add: check_untranslated_strings_eq [OF assms(1) sub]
          check_untranslated_strings_eq [OF assms(2) sub] same_key_runs_append
          same_key_runs_refl starts_plain_Cons)
  qed
qed

lemma stats_loop_prefix: "\<exists>rest. fst (stats_loop pct en_us ts out) = out @ rest"
proof (induction ts arbitrary: out)
  case Nil
  show ?case by simp
next
  case (Cons t ts)
  obtain l d where t: "t = (l, d)" by (cases t)
  show ?case
  proof (cases "length en_us = 0")
    case True
    then show ?thesis by (simp add: t)
  next
    case False
    from Cons.IH [of "out @ [stats_row l (length d) (pct (length d) (length en_us))]"]
    obtain rest where "fst (stats_loop pct en_us ts
        (out @ [stats_row l (length d) (pct (length d) (length en_us))]))
          = (out @ [stats_row l (length d) (pct (length d) (length en_us))]) @ rest"
      by blast
    with False show ?thesis
      by (simp add: t)
  qed
qed

lemma starts_plain_stats: "starts_plain (fst (show_translation_stats pct en_us ts))"
proof -
  let ?h = "[''| Language | Translated | % |'', ''| --- | --- | --- |'',
             ''| en_us | '' @ str_nat (length en_us) @ '' | 100.00% |'']"
  obtain rest where r: "fst (stats_loop pct en_us ts ?h) = ?h @ rest"
    using stats_loop_prefix by blast
  obtain out res where s: "stats_loop pct en_us ts ?h = (out, res)"
    by (cases "stats_loop pct en_us ts ?h")
  with r have out: "out = ?h @ rest" by simp
  have p: "\<not> key_line ''| Language | Translated | % |''"
    by (simp add: key_line_def)
  have "\<exists>more. fst (show_translation_stats pct en_us ts)
          = ''| Language | Translated | % |'' # more"
    unfolding show_translation_stats_def s out by (cases res) simp_all
  then show ?thesis
    using p by (auto simp: starts_plain_def)
qed

lemma starts_plain_order: "starts_plain (fst (check_order_of_strings en_us ts))"
  by (cases "order_loop en_us ts")
    (simp_all add: check_order_of_strings_def starts_plain_def)

lemma starts_plain_typo_lines: "starts_plain (typo_lines lang key val)"
  unfolding typo_lines_def
  by (rule starts_plain_concat) (auto simp: starts_plain_def)

lemma starts_plain_typo_block: "starts_plain (typo_block t)"
proof -
  obtain l d where t: "t = (l, d)" by (cases t)
  have "starts_plain (concat (map (\<lambda>(key, val). typo_lines l key val) d))"
    by (rule starts_plain_concat) (auto simp: starts_plain_typo_lines)
  then show ?thesis
    by (simp add: t typo_block_def)
qed

lemma starts_plain_difficult_block: "starts_plain (difficult_block lower t)"
  by (cases t) (simp add: difficult_block_def starts_plain_def)

lemma starts_plain_known_issues: "starts_plain (fst (check_known_issues lower en_us ts))"
proof -
  have "starts_plain (concat (map typo_block ts))"
    by (rule starts_plain_concat) (rule starts_plain_typo_block)
  moreover have "starts_plain (concat (map (difficult_block lower) ts))"
    by (rule starts_plain_concat) (rule starts_plain_difficult_block)
  moreover have "starts_plain [known_issues_ok]"
    by (simp add: starts_plain_def)
  ultimately show ?thesis
    by (simp add: check_known_issues_eq starts_plain_append)
qed

lemma starts_plain_and_then:
  "starts_plain (fst a) \<Longrightarrow> starts_plain (fst b) \<Longrightarrow> starts_plain (fst (and_then a b))"
  by (cases "snd a") (simp_all add: and_then_def starts_plain_append)

lemma main_same_key_runs:
  assumes "diff_iter_ok d1" "diff_iter_ok d2" "set_iter_ok s1" "set_iter_ok s2"
  shows "snd (main d1 s1 pct lower iu_file dir wurst_mode)
           = snd (main d2 s2 pct lower iu_file dir wurst_mode)
       \<and> same_key_runs (fst (main d1 s1 pct lower iu_file dir wurst_mode))
           (fst (main d2 s2 pct lower iu_file dir wurst_mode))"
proof (cases "load dir")
  case (Inl e)
  then show ?thesis
    by (simp add: main_def same_key_runs_refl starts_plain_Nil)
next
  case (Inr p)
  obtain en_us ts where p: "p = (en_us, ts)" by (cases p)
  let ?known = "if wurst_mode then check_known_issues lower en_us ts else ([], Inr ())"
  let ?tail = "and_then (check_order_of_strings en_us ts) ?known"
  let ?stats = "show_translation_stats pct en_us ts"
  have m: "main d s pct lower iu_file dir wurst_mode =
             and_then ?stats
               (and_then (check_extra_keys d en_us ts)
                  (and_then (check_untranslated_strings s iu_file en_us ts) ?tail))" for d s
    by (simp add: main_def Inr p)
  have "starts_plain (fst ?known)"
    by (simp add: starts_plain_known_issues starts_plain_Nil)
  then have tail: "same_key_runs (fst ?tail) (fst ?tail)"
    by (intro same_key_runs_refl starts_plain_and_then starts_plain_order)
  have stats: "same_key_runs (fst ?stats) (fst ?stats)"
    by (rule same_key_runs_refl [OF starts_plain_stats])
  show ?thesis
  proof (cases "\<forall>(l, d) \<in> set ts. set (keys d) \<subseteq> set (keys en_us)")
    case True
    note u = and_then_same_key_runs [OF check_untranslated_strings_same [OF assms(3,4) True]
        refl tail, of iu_file]
    note e = and_then_same_key_runs [OF check_extra_keys_same [OF assms(1,2)]
        u [THEN conjunct1] u [THEN conjunct2]]
    note a = and_then_same_key_runs [OF refl stats e [THEN conjunct1] e [THEN conjunct2]]
    show ?thesis
      unfolding m by (rule a)
  next
    case False
    then have bad: "\<exists>(l, d) \<in> set ts. \<not> set (keys d) \<subseteq> set (keys en_us)"
      by blast
    have m': "main d s pct lower iu_file dir wurst_mode =
            and_then ?stats (check_extra_keys d en_us ts)" for d s
      unfolding m by (rule and_then_failed [OF check_extra_keys_fails [OF bad]])
    show ?thesis
      unfolding m'
      by (rule and_then_same_key_runs [OF refl stats check_extra_keys_same [OF assms(1,2)]])
  qed
qed

lemma plain_positions_run:
  "\<forall>k \<in> set ks. key_line k \<Longrightarrow>
   map (\<lambda>l. if key_line l then None else Some l) ks = replicate (length ks) None"
  by (induction ks) simp_all

lemma plain_positions_sort_key_runs:
  "map (\<lambda>l. if key_line l then None else Some l) (sort_key_runs ls)
     = map (\<lambda>l. if key_line l then None else Some l) ls"
proof (induction ls rule: sort_key_runs.induct)
  case 1
  show ?case by simp
next
  case (2 l ls)
  let ?p = "\<lambda>l. if key_line l then None else Some l"
  show ?case
  proof (cases "key_line l")
    case True
    let ?run = "l # takeWhile key_line ls"
    have run: "\<forall>k \<in> set ?run. key_line k"
      using True by (auto dest: set_takeWhileD)
    then have srun: "\<forall>k \<in> set (sort ?run). key_line k"
      by (simp only: set_sort)
    have "map ?p (sort_key_runs (l # ls))
            = map ?p (sort ?run) @ map ?p (sort_key_runs (dropWhile key_line ls))"
      using True by (simp del: sort_key_simps)
    also have "\<dots> = replicate (length ?run) None @ map ?p (dropWhile key_line ls)"
      using plain_positions_run [OF srun] 2(1) [OF True] by (simp del: sort_key_simps)
    also have "\<dots> = map ?p ?run @ map ?p (dropWhile key_line ls)"
      using plain_positions_run [OF run] by simp
    also have "\<dots> = map ?p (l # ls)"
      by (metis append_Cons map_append takeWhile_dropWhile_id)
    finally show ?thesis .
  next
    case False
    with 2 show ?thesis by simp
  qed
qed

lemma sort_key_runs_example:
  "sort_key_runs [''h1'', ''- y'', ''- x'', ''h2'', ''- b''] = [''h1'', ''- x'', ''- y'', ''h2'', ''- b'']"
  "sort_key_runs [''- y'', ''h1'', ''- x'', ''h2'', ''- b''] \<noteq> [''h1'', ''- x'', ''- y'', ''h2'', ''- b'']"
  by code_simp+

text \<open>
  Claim C7, as stated, fails. The extra-keys check lists the extra keys in the iteration
  order of a Python set. With one language that has the two extra keys x and y, one
  admissible iteration order lists x before y and another lists y before x, so the two
  runs of \<open>main\<close> on the same directory give different reports.
\<close>

theorem report_depends_on_set_order:
  "diff_iter_ok diff_iter_listed \<and> diff_iter_ok diff_iter_reversed
   \<and> check_extra_keys diff_iter_listed [(''a'', ''X'')]
        [(''de'', [(''a'', ''1''), (''x'', ''2''), (''y'', ''3'')])]
       = ([extra_keys_header ''de'' 2, ''- x'', ''- y''], Inl extra_keys_error)
   \<and> check_extra_keys diff_iter_reversed [(''a'', ''X'')]
        [(''de'', [(''a'', ''1''), (''x'', ''2''), (''y'', ''3'')])]
       = ([extra_keys_header ''de'' 2, ''- y'', ''- x''], Inl extra_keys_error)
   \<and> fst (main diff_iter_listed id pct_floor id (Inr [])
            \<lparr>en_us_file = Inr [(''a'', ''X'')],
              rglob_json = [\<lparr>path_name = ''de.json'', path_is_file = True,
                              path_read = Inr [(''a'', ''1''), (''x'', ''2''), (''y'', ''3'')]\<rparr>]\<rparr> False)
       \<noteq> fst (main diff_iter_reversed id pct_floor id (Inr [])
            \<lparr>en_us_file = Inr [(''a'', ''X'')],
              rglob_json = [\<lparr>path_name = ''de.json'', path_is_file = True,
                              path_read = Inr [(''a'', ''1''), (''x'', ''2''), (''y'', ''3'')]\<rparr>]\<rparr> False)"
proof -
  have 2: "check_extra_keys diff_iter_listed [(''a'', ''X'')]
        [(''de'', [(''a'', ''1''), (''x'', ''2''), (''y'', ''3'')])]
       = ([extra_keys_header ''de'' 2, ''- x'', ''- y''], Inl extra_keys_error)"
    by code_simp
  have 3: "check_extra_keys diff_iter_reversed [(''a'', ''X'')]
        [(''de'', [(''a'', ''1''), (''x'', ''2''), (''y'', ''3'')])]
       = ([extra_keys_header ''de'' 2, ''- y'', ''- x''], Inl extra_keys_error)"
    by code_simp
  have 4: "fst (main diff_iter_listed id pct_floor id (Inr [])
            \<lparr>en_us_file = Inr [(''a'', ''X'')],
              rglob_json = [\<lparr>path_name = ''de.json'', path_is_file = True,
                              path_read = Inr [(''a'', ''1''), (''x'', ''2''), (''y'', ''3'')]\<rparr>]\<rparr> False)
       \<noteq> fst (main diff_iter_reversed id pct_floor id (Inr [])
            \<lparr>en_us_file = Inr [(''a'', ''X'')],
              rglob_json = [\<lparr>path_name = ''de.json'', path_is_file = True,
                              path_read = Inr [(''a'', ''1''), (''x'', ''2''), (''y'', ''3'')]\<rparr>]\<rparr> False)"
    by code_simp
  from diff_iter_ok_listed diff_iter_ok_reversed 2 3 4 show ?thesis by (intro conjI)
qed

text \<open>
  Claim C7, amended. Two runs of \<open>main\<close> on the same input, whatever the iteration
  orders of sets in the two runs, end with the same outcome, and their reports differ at
  most in the order of the key lines inside a run of consecutive key lines: the reports
  agree once every such run is sorted, every line that is not a key line stands at the
  same position in both, and both hold the same lines the same number of times. When both
  runs iterate every set in the same order, the reports are identical.
\<close>

theorem main_same_up_to_key_order:
  assumes "diff_iter_ok d1" "diff_iter_ok d2" "set_iter_ok s1" "set_iter_ok s2"
  shows "snd (main d1 s1 pct lower iu_file dir wurst_mode)
           = snd (main d2 s2 pct lower iu_file dir wurst_mode)
       \<and> sort_key_runs (fst (main d1 s1 pct lower iu_file dir wurst_mode))
           = sort_key_runs (fst (main d2 s2 pct lower iu_file dir wurst_mode))
       \<and> map (\<lambda>l. if key_line l then None else Some l)
             (fst (main d1 s1 pct lower iu_file dir wurst_mode))
           = map (\<lambda>l. if key_line l then None else Some l)
               (fst (main d2 s2 pct lower iu_file dir wurst_mode))
       \<and> mset (fst (main d1 s1 pct lower iu_file dir wurst_mode))
           = mset (fst (main d2 s2 pct lower iu_file dir wurst_mode))
       \<and> ((\<forall>a b. d1 a b = d2 a b) \<and> (\<forall>xs. s1 xs = s2 xs) \<longrightarrow>
            main d1 s1 pct lower iu_file dir wurst_mode
              = main d2 s2 pct lower iu_file dir wurst_mode)"
proof -
  note r = main_same_key_runs [OF assms, of pct lower iu_file dir wurst_mode]
  from r have 1: "snd (main d1 s1 pct lower iu_file dir wurst_mode)
           = snd (main d2 s2 pct lower iu_file dir wurst_mode)"
    by (rule conjunct1)
  from r have 2: "sort_key_runs (fst (main d1 s1 pct lower iu_file dir wurst_mode))
           = sort_key_runs (fst (main d2 s2 pct lower iu_file dir wurst_mode))"
    by (simp add: same_key_runs_def)
  have 3: "map (\<lambda>l. if key_line l then None else Some l)
             (fst (main d1 s1 pct lower iu_file dir wurst_mode))
           = map (\<lambda>l. if key_line l then None else Some l)
               (fst (main d2 s2 pct lower iu_file dir wurst_mode))"
    using arg_cong [OF 2, of "map (\<lambda>l. if key_line l then None else Some l)"]
    by (simp only: plain_positions_sort_key_runs)
  have 4: "mset (fst (main d1 s1 pct lower iu_file dir wurst_mode))
           = mset (fst (main d2 s2 pct lower iu_file dir wurst_mode))"
    using arg_cong [OF 2, of mset] by (simp only: mset_sort_key_runs)
  have 5: "main d1 s1 pct lower iu_file dir wurst_mode
              = main d2 s2 pct lower iu_file dir wurst_mode"
    if "(\<forall>a b. d1 a b = d2 a b) \<and> (\<forall>xs. s1 xs = s2 xs)"
  proof -
    from that have "d1 = d2" "s1 = s2" by (auto intro!: ext)
    then show ?thesis by simp
  qed
  from 1 2 3 4 5 show ?thesis by blast
qed

theorem main_same_up_to_key_order_witness:
  "diff_iter_ok diff_iter_listed \<and> diff_iter_ok diff_iter_reversed
   \<and> set_iter_ok id \<and> set_iter_ok rev
   \<and> snd (main diff_iter_listed id pct_floor id (Inr [])
            \<lparr>en_us_file = Inr [(''a'', ''X'')],
              rglob_json = [\<lparr>path_name = ''de.json'', path_is_file = True,
                              path_read = Inr [(''a'', ''1''), (''x'', ''2''), (''y'', ''3'')]\<rparr>]\<rparr> False)
       = snd (main diff_iter_reversed rev pct_floor id (Inr [])
            \<lparr>en_us_file = Inr [(''a'', ''X'')],
              rglob_json = [\<lparr>path_name = ''de.json'', path_is_file = True,
                              path_read = Inr [(''a'', ''1''), (''x'', ''2''), (''y'', ''3'')]\<rparr>]\<rparr> False)
   \<and> sort_key_runs (fst (main diff_iter_listed id pct_floor id (Inr [])
            \<lparr>en_us_file = Inr [(''a'', ''X'')],
              rglob_json = [\<lparr>path_name = ''de.json'', path_is_file = True,
                              path_read = Inr [(''a'', ''1''), (''x'', ''2''), (''y'', ''3'')]\<rparr>]\<rparr> False))
       = sort_key_runs (fst (main diff_iter_reversed rev pct_floor id (Inr [])
            \<lparr>en_us_file = Inr [(''a'', ''X'')],
              rglob_json = [\<lparr>path_name = ''de.json'', path_is_file = True,
                              path_read = Inr [(''a'', ''1''), (''x'', ''2''), (''y'', ''3'')]\<rparr>]\<rparr> False))"
proof -
  have 1: "set_iter_ok id" and 2: "set_iter_ok rev"
    by (simp_all add: set_iter_ok_def)
  note t = main_same_up_to_key_order [OF diff_iter_ok_listed diff_iter_ok_reversed 1 2]
  from diff_iter_ok_listed diff_iter_ok_reversed 1 2 t [THEN conjunct1]
    t [THEN conjunct2, THEN conjunct1]
  show ?thesis
    by (intro conjI)
qed

section \<open>The driver after a failing check\<close>

text \<open>
  Claim C6, as stated, fails. In a directory where the only language repeats the reference
  value "Has LegitKillaura", the untranslated-strings check raises and \<open>main\<close> ends with
  its exception. The known-issues check, run on the same tables, reports the typo; the
  report of \<open>main\<close> does not hold that line, although the known-issues pass was enabled.
\<close>

theorem driver_skips_later_checks:
  "load \<lparr>en_us_file = Inr [(''k'', ''Has LegitKillaura'')],
         rglob_json = [\<lparr>path_name = ''de.json'', path_is_file = True,
                         path_read = Inr [(''k'', ''Has LegitKillaura'')]\<rparr>]\<rparr>
     = Inr ([(''k'', ''Has LegitKillaura'')], [(''de'', [(''k'', ''Has LegitKillaura'')])])
   \<and> snd (main diff_iter_listed id pct_floor id (Inr [])
            \<lparr>en_us_file = Inr [(''k'', ''Has LegitKillaura'')],
              rglob_json = [\<lparr>path_name = ''de.json'', path_is_file = True,
                              path_read = Inr [(''k'', ''Has LegitKillaura'')]\<rparr>]\<rparr> True)
       = Inl untranslated_error
   \<and> typo_header ''de'' ''k'' ''KillauraLegit'' ''LegitKillaura''
       \<in> set (fst (check_known_issues id [(''k'', ''Has LegitKillaura'')]
                     [(''de'', [(''k'', ''Has LegitKillaura'')])]))
   \<and> typo_header ''de'' ''k'' ''KillauraLegit'' ''LegitKillaura''
       \<notin> set (fst (main diff_iter_listed id pct_floor id (Inr [])
            \<lparr>en_us_file = Inr [(''k'', ''Has LegitKillaura'')],
              rglob_json = [\<lparr>path_name = ''de.json'', path_is_file = True,
                              path_read = Inr [(''k'', ''Has LegitKillaura'')]\<rparr>]\<rparr> True))"
  by code_simp

text \<open>
  Claim C6, amended. When the tables load, \<open>main\<close> runs the statistics pass and the
  checks in their order and stops at the first that raises: the report is the lines of the
  passes up to and including that one, the outcome is its exception, and no later check
  runs. When none raises, the report holds the lines of all of them.
\<close>

theorem main_stops_at_first_failure:
  assumes "load dir = Inr (en_us, translations)"
  shows "main diff_iter set_iter pct lower iu_file dir wurst_mode =
     (if snd (show_translation_stats pct en_us translations) \<noteq> Inr ()
      then show_translation_stats pct en_us translations
      else if snd (check_extra_keys diff_iter en_us translations) \<noteq> Inr ()
      then (fst (show_translation_stats pct en_us translations)
              @ fst (check_extra_keys diff_iter en_us translations),
            snd (check_extra_keys diff_iter en_us translations))
      else if snd (check_untranslated_strings set_iter iu_file en_us translations) \<noteq> Inr ()
      then (fst (show_translation_stats pct en_us translations)
              @ fst (check_extra_keys diff_iter en_us translations)
              @ fst (check_untranslated_strings set_iter iu_file en_us translations),
            snd (check_untranslated_strings set_iter iu_file en_us translations))
      else if snd (check_order_of_strings en_us translations) \<noteq> Inr ()
      then (fst (show_translation_stats pct en_us translations)
              @ fst (check_extra_keys diff_iter en_us translations)
              @ fst (check_untranslated_strings set_iter iu_file en_us translations)
              @ fst (check_order_of_strings en_us translations),
            snd (check_order_of_strings en_us translations))
      else if wurst_mode
      then (fst (show_translation_stats pct en_us translations)
              @ fst (check_extra_keys diff_iter en_us translations)
              @ fst (check_untranslated_strings set_iter iu_file en_us translations)
              @ fst (check_order_of_strings en_us translations)
              @ fst (check_known_issues lower en_us translations),
            snd (check_known_issues lower en_us translations))
      else (fst (show_translation_stats pct en_us translations)
              @ fst (check_extra_keys diff_iter en_us translations)
              @ fst (check_untranslated_strings set_iter iu_file en_us translations)
              @ fst (check_order_of_strings en_us translations),
            Inr ()))"
proof -
  have a: "and_then x y = (if snd x \<noteq> Inr () then x else (fst x @ fst y, snd y))" for x y
    by (cases x; cases "snd x") (auto simp: and_then_def)
  show ?thesis
    unfolding main_def assms by (simp add: a)
qed

theorem main_stops_at_first_failure_witness:
  "load \<lparr>en_us_file = Inr [(''k'', ''Has LegitKillaura'')],
         rglob_json = [\<lparr>path_name = ''de.json'', path_is_file = True,
                         path_read = Inr [(''k'', ''Has LegitKillaura'')]\<rparr>]\<rparr>
     = Inr ([(''k'', ''Has LegitKillaura'')], [(''de'', [(''k'', ''Has LegitKillaura'')])])
   \<and> main diff_iter_listed id pct_floor id (Inr [])
            \<lparr>en_us_file = Inr [(''k'', ''Has LegitKillaura'')],
              rglob_json = [\<lparr>path_name = ''de.json'', path_is_file = True,
                              path_read = Inr [(''k'', ''Has LegitKillaura'')]\<rparr>]\<rparr> True
     = (fst (show_translation_stats pct_floor [(''k'', ''Has LegitKillaura'')]
               [(''de'', [(''k'', ''Has LegitKillaura'')])])
          @ fst (check_extra_keys diff_iter_listed [(''k'', ''Has LegitKillaura'')]
                   [(''de'', [(''k'', ''Has LegitKillaura'')])])
          @ fst (check_untranslated_strings id (Inr []) [(''k'', ''Has LegitKillaura'')]
                   [(''de'', [(''k'', ''Has LegitKillaura'')])]),
        Inl untranslated_error)"
proof -
  have ld: "load \<lparr>en_us_file = Inr [(''k'', ''Has LegitKillaura'')],
         rglob_json = [\<lparr>path_name = ''de.json'', path_is_file = True,
                         path_read = Inr [(''k'', ''Has LegitKillaura'')]\<rparr>]\<rparr>
     = Inr ([(''k'', ''Has LegitKillaura'')], [(''de'', [(''k'', ''Has LegitKillaura'')])])"
    by code_simp
  have s: "snd (show_translation_stats pct_floor [(''k'', ''Has LegitKillaura'')]
               [(''de'', [(''k'', ''Has LegitKillaura'')])]) = Inr ()"
    "snd (check_extra_keys diff_iter_listed [(''k'', ''Has LegitKillaura'')]
                   [(''de'', [(''k'', ''Has LegitKillaura'')])]) = Inr ()"
    "snd (check_untranslated_strings id (Inr []) [(''k'', ''Has LegitKillaura'')]
                   [(''de'', [(''k'', ''Has LegitKillaura'')])]) = Inl untranslated_error"
    by code_simp+
  from ld main_stops_at_first_failure [OF ld, where diff_iter = diff_iter_listed and set_iter = id
      and pct = pct_floor and lower = id and iu_file = "Inr []" and wurst_mode = True] show ?thesis
    by (simp add: s)
qed


end
